theory Spec2Isabelle
  imports Complex_Main
begin

section \<open>Fleet dashboard: record matching and compliance scoring\<close>

text \<open>
  A shallow embedding of the pure core of \<^verbatim>\<open>fleet_dashboard.py\<close> (the functions
  \<^verbatim>\<open>clean_excel_data\<close>, \<^verbatim>\<open>find_excel_match\<close>, \<^verbatim>\<open>extract_excel_data\<close>,
  \<^verbatim>\<open>calculate_days_remaining\<close>, \<^verbatim>\<open>get_alert_status\<close> and
  \<^verbatim>\<open>process_combined_data\<close>); \<^verbatim>\<open>fleet_dashboard_auto.py\<close> holds the same
  functions, statement for statement.
\<close>

subsection \<open>Errors\<close>

text \<open>The Python exceptions that the modelled code and library calls can raise.\<close>

datatype py_error = ValueError | IndexError | AttributeError | OverflowError

subsection \<open>Strings\<close>

text \<open>
  Python \<^verbatim>\<open>str\<close> values are modelled as \<^typ>\<open>string\<close>. \<^verbatim>\<open>str.upper()\<close> is
  modelled on the ASCII letters, which is all the column tests below look for.
\<close>

definition upper_char :: "char \<Rightarrow> char" where
  "upper_char c =
     (case map_of (zip ''abcdefghijklmnopqrstuvwxyz'' ''ABCDEFGHIJKLMNOPQRSTUVWXYZ'') c of
        Some u \<Rightarrow> u
      | None \<Rightarrow> c)"

definition str_upper :: "string \<Rightarrow> string" where
  "str_upper s = map upper_char s"

text \<open>\<^verbatim>\<open>s.startswith(p)\<close>.\<close>

definition startswith :: "string \<Rightarrow> string \<Rightarrow> bool" where
  "startswith s p = (take (length p) s = p)"

text \<open>\<^verbatim>\<open>needle in hay\<close> on strings: \<open>needle\<close> occurs as a contiguous substring.\<close>

fun str_in :: "string \<Rightarrow> string \<Rightarrow> bool" where
  "str_in needle [] = (needle = [])"
| "str_in needle (h # t) = (startswith (h # t) needle \<or> str_in needle t)"

subsection \<open>Data frames\<close>

text \<open>
  A cell is a non-null value, represented by the text \<^verbatim>\<open>str()\<close> gives for it, or
  null (pandas \<^verbatim>\<open>NaN\<close>), which is \<open>None\<close>. A data frame has its column labels in
  order and its rows in order, each row carrying its index label: row filtering in pandas
  keeps the labels of the surviving rows, and nothing in the program resets them. Column
  labels are strings, pairwise distinct, as \<^verbatim>\<open>pandas.read_csv\<close> produces them.
\<close>

type_synonym cell = "string option"

record dataframe =
  columns :: "string list"
  rows :: "(nat \<times> cell list) list"

text \<open>\<^verbatim>\<open>df.empty\<close>: some axis has length zero.\<close>

definition df_empty :: "dataframe \<Rightarrow> bool" where
  "df_empty df = (columns df = [] \<or> rows df = [])"

text \<open>The cell of a row under a column label (\<^verbatim>\<open>row[col]\<close>).\<close>

definition cell_of :: "string list \<Rightarrow> cell list \<Rightarrow> string \<Rightarrow> cell" where
  "cell_of cols r col = (case map_of (zip cols r) col of Some c \<Rightarrow> c | None \<Rightarrow> None)"

text \<open>\<^verbatim>\<open>df[col]\<close>: the column as a series of labelled cells.\<close>

definition getitem_col :: "dataframe \<Rightarrow> string \<Rightarrow> (nat \<times> cell) list" where
  "getitem_col df col = map (\<lambda>(l, r). (l, cell_of (columns df) r col)) (rows df)"

text \<open>\<^verbatim>\<open>df.iloc[:, 1:]\<close> and \<^verbatim>\<open>df.iloc[:, :n]\<close>.\<close>

definition iloc_cols_from1 :: "dataframe \<Rightarrow> dataframe" where
  "iloc_cols_from1 df =
     df\<lparr>columns := tl (columns df), rows := map (\<lambda>(l, r). (l, tl r)) (rows df)\<rparr>"

definition iloc_cols_upto :: "dataframe \<Rightarrow> nat \<Rightarrow> dataframe" where
  "iloc_cols_upto df n =
     df\<lparr>columns := take n (columns df), rows := map (\<lambda>(l, r). (l, take n r)) (rows df)\<rparr>"

text \<open>\<^verbatim>\<open>df[df[col] != v]\<close>: a null cell differs from every string.\<close>

definition drop_rows_eq :: "string \<Rightarrow> dataframe \<Rightarrow> string \<Rightarrow> dataframe" where
  "drop_rows_eq col df v =
     df\<lparr>rows := filter (\<lambda>(l, r). cell_of (columns df) r col \<noteq> Some v) (rows df)\<rparr>"

subsection \<open>Cleaning the spreadsheet\<close>

definition filters_to_remove :: "string list" where
  "filters_to_remove = [''OLD'', ''DKD'', ''GNS'', ''SOLD'']"

text \<open>The \<^verbatim>\<open>enumerate\<close> loop with \<^verbatim>\<open>break\<close> that looks for the VIN column.\<close>

fun find_vin_index :: "string list \<Rightarrow> nat \<Rightarrow> nat option" where
  "find_vin_index [] i = None"
| "find_vin_index (col # cols) i =
     (if str_in ''VIN'' (str_upper col) then Some i else find_vin_index cols (Suc i))"

text \<open>
  \<^verbatim>\<open>clean_excel_data(df)\<close>. \<^verbatim>\<open>df.columns[0]\<close> raises \<^verbatim>\<open>IndexError\<close> on a frame
  without columns, which the second read can meet after the unnamed column was dropped.
\<close>

definition clean_excel_data :: "dataframe \<Rightarrow> py_error + dataframe" where
  "clean_excel_data df =
     (if df_empty df then Inr df
      else case columns df of
        [] \<Rightarrow> Inl IndexError
      | c0 # _ \<Rightarrow>
          let df1 = (if startswith c0 ''Unnamed'' then iloc_cols_from1 df else df) in
          case columns df1 of
            [] \<Rightarrow> Inl IndexError
          | first_col # _ \<Rightarrow>
              let df2 = foldl (drop_rows_eq first_col) df1 filters_to_remove in
              case find_vin_index (columns df2) 0 of
                None \<Rightarrow> Inr df2
              | Some vin_index \<Rightarrow> Inr (iloc_cols_upto df2 (vin_index + 1)))"

subsection \<open>Matching a vehicle to a spreadsheet row\<close>

text \<open>
  \<^verbatim>\<open>series.astype(str)\<close> on one cell. A cell holding a text keeps it. What becomes
  of a null cell depends on the pandas release, and the repository pins none: before
  pandas 3 it becomes the text \<^verbatim>\<open>nan\<close>, from pandas 3 on it stays null, and a
  null equals no text. \<open>na_repr\<close> is what the installed release makes of a null
  cell: \<open>Some ''nan''\<close> or \<open>None\<close>.
\<close>

definition astype_str :: "string option \<Rightarrow> cell \<Rightarrow> string option" where
  "astype_str na_repr c = (case c of Some s \<Rightarrow> Some s | None \<Rightarrow> na_repr)"

text \<open>
  One \<^verbatim>\<open>for col in excel_df.columns\<close> loop of \<^verbatim>\<open>find_excel_match\<close>; \<open>p\<close> is
  the test on the upper-cased column name, \<open>key\<close> the text looked for.
  \<^verbatim>\<open>matches.index[0]\<close> is the label of the first matching row.
\<close>

fun match_loop ::
  "string option \<Rightarrow> (string \<Rightarrow> bool) \<Rightarrow> string \<Rightarrow> dataframe \<Rightarrow> string list \<Rightarrow> nat option" where
  "match_loop na_repr p key df [] = None"
| "match_loop na_repr p key df (col # cols) =
     (if p (str_upper col) then
        (case filter (\<lambda>(l, c). astype_str na_repr c = Some key) (getitem_col df col) of
           [] \<Rightarrow> match_loop na_repr p key df cols
         | (l, c) # _ \<Rightarrow> Some l)
      else match_loop na_repr p key df cols)"

definition is_id_col :: "string \<Rightarrow> bool" where
  "is_id_col cu = (str_in ''TRUCK'' cu \<or> str_in ''ID'' cu)"

definition is_vin_col :: "string \<Rightarrow> bool" where
  "is_vin_col cu = str_in ''VIN'' cu"

definition find_excel_match :: "string option \<Rightarrow> string \<Rightarrow> string \<Rightarrow> dataframe \<Rightarrow> nat option" where
  "find_excel_match na_repr vehicle_name samsara_vin excel_df =
     (case match_loop na_repr is_id_col vehicle_name excel_df (columns excel_df) of
        Some l \<Rightarrow> Some l
      | None \<Rightarrow>
          if samsara_vin \<noteq> []
          then match_loop na_repr is_vin_col samsara_vin excel_df (columns excel_df)
          else None)"

subsection \<open>Extracting the compliance fields\<close>

record excel_data =
  status :: string
  annual_date :: string
  pm_date :: string
  pm_insp_date :: string

text \<open>\<^verbatim>\<open>df.iloc[i]\<close>: the row at position \<open>i\<close>, whatever its label.\<close>

definition iloc_row :: "dataframe \<Rightarrow> nat \<Rightarrow> py_error + cell list" where
  "iloc_row df i = (if i < length (rows df) then Inr (snd (rows df ! i)) else Inl IndexError)"

text \<open>\<^verbatim>\<open>str(x) if pd.notna(x) else ''\<close>.\<close>

definition cell_text :: "cell \<Rightarrow> string" where
  "cell_text c = (case c of Some s \<Rightarrow> s | None \<Rightarrow> [])"

text \<open>The body of the loop over the columns, with its \<^verbatim>\<open>if\<close>/\<^verbatim>\<open>elif\<close> chain.\<close>

definition extract_step :: "string list \<Rightarrow> cell list \<Rightarrow> excel_data \<Rightarrow> string \<Rightarrow> excel_data" where
  "extract_step cols row d col =
     (let col_upper = str_upper col; v = cell_text (cell_of cols row col) in
      if str_in ''STATUS'' col_upper then d\<lparr>status := v\<rparr>
      else if str_in ''ANNUAL'' col_upper then d\<lparr>annual_date := v\<rparr>
      else if str_in ''PM'' col_upper \<and> str_in ''DATE'' col_upper then d\<lparr>pm_date := v\<rparr>
      else if str_in ''PM'' col_upper \<and> str_in ''INSP'' col_upper then d\<lparr>pm_insp_date := v\<rparr>
      else d)"

definition extract_excel_data :: "nat \<Rightarrow> dataframe \<Rightarrow> py_error + excel_data" where
  "extract_excel_data row_index excel_df =
     (case iloc_row excel_df row_index of
        Inl e \<Rightarrow> Inl e
      | Inr row \<Rightarrow>
          Inr (foldl (extract_step (columns excel_df) row)
                 \<lparr>status = [], annual_date = [], pm_date = [], pm_insp_date = []\<rparr>
                 (columns excel_df)))"

subsection \<open>Alert tiers\<close>

text \<open>
  \<^verbatim>\<open>get_alert_status(days_remaining)\<close>: \<open>None\<close> is Python's \<open>None\<close>; the
  \<^verbatim>\<open>if\<close>/\<^verbatim>\<open>elif\<close> chain is kept in the source's order.
\<close>

definition get_alert_status :: "int option \<Rightarrow> string" where
  "get_alert_status days_remaining =
     (case days_remaining of
        None \<Rightarrow> ''No Data''
      | Some d \<Rightarrow>
          if d < 0 then ''OVERDUE''
          else if d \<le> 30 then ''CRITICAL''
          else if d \<le> 60 then ''WARNING''
          else ''OK'')"

subsection \<open>Dates and instants\<close>

text \<open>
  A naive \<^verbatim>\<open>datetime\<close> of the Python standard library. The proleptic Gregorian
  ordinal follows \<^verbatim>\<open>datetime.py\<close>: \<^verbatim>\<open>_is_leap\<close>, \<^verbatim>\<open>_days_before_year\<close>,
  \<^verbatim>\<open>_days_in_month\<close>, \<^verbatim>\<open>_days_before_month\<close>, \<^verbatim>\<open>_ymd2ord\<close>, with the two
  tables (index 0 is a placeholder, as in the library).
\<close>

record datetime =
  year :: int
  month :: int
  day :: int
  hour :: int
  minute :: int
  second :: int
  microsecond :: int

definition DAYS_IN_MONTH :: "int list" where
  "DAYS_IN_MONTH = [- 1, 31, 28, 31, 30, 31, 30, 31, 31, 30, 31, 30, 31]"

definition DAYS_BEFORE_MONTH :: "int list" where
  "DAYS_BEFORE_MONTH = [- 1, 0, 31, 59, 90, 120, 151, 181, 212, 243, 273, 304, 334]"

definition is_leap :: "int \<Rightarrow> bool" where
  "is_leap y = (y mod 4 = 0 \<and> (y mod 100 \<noteq> 0 \<or> y mod 400 = 0))"

definition days_before_year :: "int \<Rightarrow> int" where
  "days_before_year y = (let y1 = y - 1 in y1 * 365 + y1 div 4 - y1 div 100 + y1 div 400)"

definition days_in_month :: "int \<Rightarrow> int \<Rightarrow> int" where
  "days_in_month y m = (if m = 2 \<and> is_leap y then 29 else DAYS_IN_MONTH ! nat m)"

definition days_before_month :: "int \<Rightarrow> int \<Rightarrow> int" where
  "days_before_month y m = DAYS_BEFORE_MONTH ! nat m + (if 2 < m \<and> is_leap y then 1 else 0)"

definition ymd2ord :: "int \<Rightarrow> int \<Rightarrow> int \<Rightarrow> int" where
  "ymd2ord y m d = days_before_year y + days_before_month y m + d"

definition toordinal :: "datetime \<Rightarrow> int" where
  "toordinal t = ymd2ord (year t) (month t) (day t)"

text \<open>\<^verbatim>\<open>_check_date_fields\<close>: the condition under which no \<^verbatim>\<open>ValueError\<close> is raised.\<close>

definition check_date_fields :: "int \<Rightarrow> int \<Rightarrow> int \<Rightarrow> bool" where
  "check_date_fields y m d =
     (1 \<le> y \<and> y \<le> 9999 \<and> 1 \<le> m \<and> m \<le> 12 \<and> 1 \<le> d \<and> d \<le> days_in_month y m)"

text \<open>
  \<^verbatim>\<open>(a - b).days\<close> for two naive instants: \<^verbatim>\<open>datetime.__sub__\<close> builds
  \<^verbatim>\<open>timedelta(days1 - days2, secs1 - secs2, us1 - us2)\<close>, whose constructor carries
  microseconds into seconds and seconds into days by floor division.
\<close>

definition sub_days :: "datetime \<Rightarrow> datetime \<Rightarrow> int" where
  "sub_days a b =
     (let days = toordinal a - toordinal b;
          secs = (second a + minute a * 60 + hour a * 3600)
                 - (second b + minute b * 60 + hour b * 3600);
          us = microsecond a - microsecond b
      in days + (secs + us div 1000000) div 86400)"

subsection \<open>Parsing a date\<close>

text \<open>
  \<^verbatim>\<open>datetime.strptime(s, fmt)\<close> for the directives the program uses. The library
  turns the format into a regular expression, \<^verbatim>\<open>%m\<close> into \<^verbatim>\<open>1[0-2]|0[1-9]|[1-9]\<close>,
  \<^verbatim>\<open>%d\<close> into \<^verbatim>\<open>3[0-1]|[1-2]\d|0[1-9]|[1-9]| [1-9]\<close>, \<^verbatim>\<open>%Y\<close> into
  \<^verbatim>\<open>\d\d\d\d\<close> and every other character into itself, matches it at the start of the
  text with backtracking, and then requires the match to end where the text ends. Each
  directive is modelled by the list of its possible readings, in the order of the
  alternatives; digits are the ASCII digits.
\<close>

text \<open>A character class \<^verbatim>\<open>[...]\<close> of the regular expression.\<close>

definition char_in :: "char \<Rightarrow> string \<Rightarrow> bool" where
  "char_in c cs = (c \<in> set cs)"

definition digit_val :: "char \<Rightarrow> int" where
  "digit_val c =
     (case map_of (zip ''0123456789'' [0, 1, 2, 3, 4, 5, 6, 7, 8, 9]) c of
        Some v \<Rightarrow> v
      | None \<Rightarrow> 0)"

definition re_m :: "string \<Rightarrow> (int \<times> string) list" where
  "re_m s =
     (case s of
        a # b # r \<Rightarrow>
          (if a = CHR ''1'' \<and> char_in b ''012'' then [(10 + digit_val b, r)] else []) @
          (if a = CHR ''0'' \<and> char_in b ''123456789'' then [(digit_val b, r)] else [])
      | _ \<Rightarrow> []) @
     (case s of
        a # r \<Rightarrow> if char_in a ''123456789'' then [(digit_val a, r)] else []
      | [] \<Rightarrow> [])"

definition re_d :: "string \<Rightarrow> (int \<times> string) list" where
  "re_d s =
     (case s of
        a # b # r \<Rightarrow>
          (if a = CHR ''3'' \<and> char_in b ''01'' then [(30 + digit_val b, r)] else []) @
          (if char_in a ''12'' \<and> char_in b ''0123456789''
           then [(10 * digit_val a + digit_val b, r)] else []) @
          (if a = CHR ''0'' \<and> char_in b ''123456789'' then [(digit_val b, r)] else [])
      | _ \<Rightarrow> []) @
     (case s of
        a # r \<Rightarrow> if char_in a ''123456789'' then [(digit_val a, r)] else []
      | [] \<Rightarrow> []) @
     (case s of
        a # b # r \<Rightarrow>
          if a = CHR '' '' \<and> char_in b ''123456789'' then [(digit_val b, r)] else []
      | _ \<Rightarrow> [])"

definition re_Y :: "string \<Rightarrow> (int \<times> string) list" where
  "re_Y s =
     (case s of
        a # b # c # d # r \<Rightarrow>
          if char_in a ''0123456789'' \<and> char_in b ''0123456789''
             \<and> char_in c ''0123456789'' \<and> char_in d ''0123456789''
          then [(1000 * digit_val a + 100 * digit_val b + 10 * digit_val c + digit_val d, r)]
          else []
      | _ \<Rightarrow> [])"

definition directive :: "char \<Rightarrow> string \<Rightarrow> (int \<times> string) list" where
  "directive c s =
     (if c = CHR ''m'' then re_m s
      else if c = CHR ''d'' then re_d s
      else if c = CHR ''Y'' then re_Y s
      else [])"

text \<open>The year, month and day read so far; the library starts from 1900, 1, 1.\<close>

type_synonym ymd = "int \<times> int \<times> int"

definition set_field :: "char \<Rightarrow> int \<Rightarrow> ymd \<Rightarrow> ymd" where
  "set_field c v t =
     (case t of (y, m, d) \<Rightarrow>
        if c = CHR ''Y'' then (v, m, d)
        else if c = CHR ''m'' then (y, v, d)
        else if c = CHR ''d'' then (y, m, v)
        else t)"

text \<open>Backtracking: the first alternative for which the rest of the pattern matches.\<close>

fun first_some :: "('a \<Rightarrow> 'b option) \<Rightarrow> 'a list \<Rightarrow> 'b option" where
  "first_some f [] = None"
| "first_some f (x # xs) = (case f x of Some y \<Rightarrow> Some y | None \<Rightarrow> first_some f xs)"

text \<open>
  The match of a format at the start of a text: the fields read and the unread rest of
  the text, or \<open>None\<close> when the text does not match (or the format is malformed).
\<close>

fun match_fmt :: "string \<Rightarrow> string \<Rightarrow> (ymd \<times> string) option" where
  "match_fmt [] s = Some ((1900, 1, 1), s)"
| "match_fmt (c # fmt) s =
     (if c = CHR ''%'' then
        (case fmt of
           [] \<Rightarrow> None
         | d # fmt' \<Rightarrow>
             first_some
               (\<lambda>(v, r). map_option (\<lambda>(t, r'). (set_field d v t, r')) (match_fmt fmt' r))
               (directive d s))
      else
        (case s of
           [] \<Rightarrow> None
         | a # r \<Rightarrow> if a = c then match_fmt fmt r else None))"

definition strptime :: "string \<Rightarrow> string \<Rightarrow> py_error + datetime" where
  "strptime data_string fmt =
     (case match_fmt fmt data_string of
        None \<Rightarrow> Inl ValueError
      | Some ((y, m, d), rest) \<Rightarrow>
          if rest \<noteq> [] then Inl ValueError
          else if check_date_fields y m d then
            Inr \<lparr>year = y, month = m, day = d, hour = 0, minute = 0, second = 0,
                 microsecond = 0\<rparr>
          else Inl ValueError)"

subsection \<open>Days remaining\<close>

definition date_formats :: "string list" where
  "date_formats = [''%m/%d/%Y'', ''%Y-%m-%d'', ''%d.%m.%Y'', ''%m-%d-%Y'']"

text \<open>
  The loop over the formats. \<open>today\<close> is the instant that \<^verbatim>\<open>datetime.now()\<close>
  returns when it is read, after the first successful parse. A \<^verbatim>\<open>ValueError\<close>
  moves on to the next format; any other exception leaves the loop.
\<close>

fun try_formats :: "datetime \<Rightarrow> string \<Rightarrow> string list \<Rightarrow> py_error + int option" where
  "try_formats today s [] = Inr None"
| "try_formats today s (fmt # fmts) =
     (case strptime s fmt of
        Inr target_date \<Rightarrow> Inr (Some (sub_days target_date today))
      | Inl ValueError \<Rightarrow> try_formats today s fmts
      | Inl e \<Rightarrow> Inl e)"

text \<open>
  \<^verbatim>\<open>calculate_days_remaining(date_value)\<close>. The argument is a text or null; an empty
  text is falsy. The bare \<^verbatim>\<open>except\<close> around the loop turns every exception into
  \<^verbatim>\<open>None\<close>.
\<close>

definition calculate_days_remaining :: "datetime \<Rightarrow> cell \<Rightarrow> py_error + int option" where
  "calculate_days_remaining today date_value =
     (case date_value of
        None \<Rightarrow> Inr None
      | Some s \<Rightarrow>
          if s = [] then Inr None
          else (case try_formats today s date_formats of
                  Inl e \<Rightarrow> Inr None
                | Inr r \<Rightarrow> Inr r))"

subsection \<open>Floating point\<close>

text \<open>
  A finite Python \<^verbatim>\<open>float\<close> is a binary64 number, here the rational it denotes.
  \<open>fl64\<close> rounds a rational to the nearest binary64 number, ties to the even
  significand, with an unbounded exponent: no subnormal numbers, which a quotient of a
  nonzero whole number of meters by 1609.34 does not reach, and overflow tested where
  it can occur, in \<open>float_of_int\<close>. Division of floats and the conversion of an
  \<^verbatim>\<open>int\<close> are the exact results rounded by \<open>fl64\<close>, as IEEE 754 prescribes.
\<close>

text \<open>The number of binary digits of a natural number (\<^verbatim>\<open>int.bit_length\<close>).\<close>

fun bit_length :: "nat \<Rightarrow> nat" where
  "bit_length n = (if n = 0 then 0 else Suc (bit_length (n div 2)))"

declare bit_length.simps [simp del]

definition pow2 :: "int \<Rightarrow> rat" where
  "pow2 e = (if 0 \<le> e then 2 ^ nat e else 1 / 2 ^ nat (- e))"

text \<open>
  The binary exponent of a positive rational, the floor of its logarithm to base 2: from
  the digits of its integer part when it is at least 1, and of its reciprocal otherwise.
\<close>

definition ilog2 :: "rat \<Rightarrow> int" where
  "ilog2 x =
     (if 1 \<le> x then int (bit_length (nat \<lfloor>x\<rfloor>)) - 1
      else - int (bit_length (nat (\<lceil>1 / x\<rceil> - 1))))"

text \<open>Rounding to the nearest integer, ties to the even one.\<close>

definition round_half_even :: "rat \<Rightarrow> int" where
  "round_half_even x =
     (let f = \<lfloor>x\<rfloor>; r = x - of_int f
      in if r < 1 / 2 then f else if 1 / 2 < r then f + 1 else if even f then f else f + 1)"

definition fl64 :: "rat \<Rightarrow> rat" where
  "fl64 x =
     (if x = 0 then 0
      else let q = pow2 (ilog2 \<bar>x\<bar> - 52) in of_int (round_half_even (x / q)) * q)"

text \<open>
  The conversion of the left operand of \<^verbatim>\<open>int / float\<close>: the integer is rounded to
  53 significant bits, and \<^verbatim>\<open>OverflowError\<close> is raised when the result leaves the
  binary64 range, that is, reaches \<open>2 ^ 1024\<close> in magnitude.
\<close>

definition float_of_int :: "int \<Rightarrow> py_error + rat" where
  "float_of_int v =
     (let f = fl64 (of_int v)
      in if 2 ^ 1024 \<le> \<bar>f\<bar> then Inl OverflowError else Inr f)"

definition truediv :: "rat \<Rightarrow> rat \<Rightarrow> rat" where
  "truediv a b = fl64 (a / b)"

text \<open>The literal \<^verbatim>\<open>1609.34\<close>: the binary64 number nearest to the decimal.\<close>

definition meters_per_mile :: rat where
  "meters_per_mile = fl64 (160934 / 100)"

text \<open>
  \<^verbatim>\<open>round(x, 0)\<close> on a float rounds its exact value half to even and returns a
  float; \<^verbatim>\<open>int(x)\<close> truncates towards zero.
\<close>

definition py_round0 :: "rat \<Rightarrow> rat" where
  "py_round0 x = of_int (round_half_even x)"

definition py_int :: "rat \<Rightarrow> int" where
  "py_int x = (if 0 \<le> x then \<lfloor>x\<rfloor> else \<lceil>x\<rceil>)"

subsection \<open>Combining the telematics records with the spreadsheet\<close>

text \<open>
  A telematics record as the JSON gives it. A key of the vehicle may be missing, hold
  \<^verbatim>\<open>null\<close>, or hold a value: \<^verbatim>\<open>vehicle.get(k, {})\<close> is the empty dictionary in the
  first case and \<^verbatim>\<open>None\<close> in the second. A reading holds a whole number of meters
  and a timestamp, the external identifiers a VIN and a serial number.
  \<^verbatim>\<open>d.get(k, default)\<close> on a dictionary is \<open>get_default\<close>.
\<close>

datatype 'a json_key = KeyMissing | JsonNull | JsonValue 'a

record reading =
  r_value :: "int option"
  r_time :: "string option"

record external_ids =
  ext_vin :: "string option"
  ext_serial :: "string option"

record vehicle =
  v_id :: "string option"
  v_name :: "string option"
  externalIds :: "external_ids json_key"
  obdOdometerMeters :: "reading json_key"
  gpsDistanceMeters :: "reading json_key"

definition get_default :: "'a option \<Rightarrow> 'a \<Rightarrow> 'a" where
  "get_default x d = (case x of Some v \<Rightarrow> v | None \<Rightarrow> d)"

text \<open>
  \<^verbatim>\<open>vehicle.get('externalIds', {}).get(key, '')\<close>, where \<open>key\<close> selects
  \<^verbatim>\<open>samsara.vin\<close> or \<^verbatim>\<open>samsara.serial\<close>: on \<^verbatim>\<open>null\<close> the second
  \<^verbatim>\<open>get\<close> is called on \<^verbatim>\<open>None\<close> and raises \<^verbatim>\<open>AttributeError\<close>.
\<close>

definition external_id ::
  "(external_ids \<Rightarrow> string option) \<Rightarrow> external_ids json_key \<Rightarrow> py_error + string" where
  "external_id key ids =
     (case ids of
        KeyMissing \<Rightarrow> Inr []
      | JsonNull \<Rightarrow> Inl AttributeError
      | JsonValue d \<Rightarrow> Inr (get_default (key d) []))"

text \<open>
  \<^verbatim>\<open>round((data.get('value', 0) / 1609.34), 0) if data.get('value') else 0\<close>, where
  \<^verbatim>\<open>data\<close> is \<^verbatim>\<open>vehicle.get(k, {})\<close>. The condition is evaluated first: when the
  key holds \<^verbatim>\<open>null\<close>, \<^verbatim>\<open>data.get\<close> is called on \<^verbatim>\<open>None\<close> and raises
  \<^verbatim>\<open>AttributeError\<close>. A missing value and the value 0 are falsy. Otherwise the
  division converts the integer and can raise \<^verbatim>\<open>OverflowError\<close>.
\<close>

definition miles_of :: "reading json_key \<Rightarrow> py_error + rat" where
  "miles_of data =
     (case data of
        KeyMissing \<Rightarrow> Inr 0
      | JsonNull \<Rightarrow> Inl AttributeError
      | JsonValue r \<Rightarrow>
          (case r_value r of
             None \<Rightarrow> Inr 0
           | Some v \<Rightarrow>
               if v \<noteq> 0 then
                 (case float_of_int v of
                    Inl e \<Rightarrow> Inl e
                  | Inr f \<Rightarrow> Inr (py_round0 (truediv f meters_per_mile)))
               else Inr 0))"

text \<open>
  \<^verbatim>\<open>data.get('time', '') if data else ''\<close>; \<^verbatim>\<open>None\<close> is falsy (and is not
  reached: the line before has raised).
\<close>

definition time_of :: "reading json_key \<Rightarrow> string" where
  "time_of data = (case data of JsonValue r \<Rightarrow> get_default (r_time r) [] | _ \<Rightarrow> [])"

record combined_info =
  Vehicle_ID :: string
  Vehicle_Name :: string
  VIN :: string
  Serial :: string
  OBD_Odometer_Miles :: int
  GPS_Distance_Miles :: int
  OBD_Last_Update :: string
  GPS_Last_Update :: string
  Status :: string
  Annual_Date :: string
  Annual_Days_Remaining :: "int option"
  PM_Date :: string
  PM_Days_Remaining :: "int option"
  PM_Insp_Date :: string
  PM_Insp_Days_Remaining :: "int option"
  Annual_Alert :: string
  PM_Alert :: string
  PM_Insp_Alert :: string

text \<open>
  The body of the loop over the vehicles, its statements in the order of the source:
  the identifiers and the two mileages are computed, and can raise, before the match is
  looked for. \<open>now k\<close> is the instant that the \<open>k\<close>-th of the three calls of
  \<^verbatim>\<open>calculate_days_remaining\<close> reads. The result is \<open>None\<close> when the vehicle has
  no match and nothing is appended.
\<close>

definition process_vehicle ::
  "string option \<Rightarrow> (nat \<Rightarrow> datetime) \<Rightarrow> vehicle \<Rightarrow> dataframe
     \<Rightarrow> py_error + combined_info option" where
  "process_vehicle na_repr now vehicle excel_df =
     (let vehicle_id = get_default (v_id vehicle) [];
          vehicle_name = get_default (v_name vehicle) []
      in
      case external_id ext_vin (externalIds vehicle) of
        Inl e \<Rightarrow> Inl e
      | Inr samsara_vin \<Rightarrow>
      (case external_id ext_serial (externalIds vehicle) of
        Inl e \<Rightarrow> Inl e
      | Inr serial \<Rightarrow>
      (case miles_of (obdOdometerMeters vehicle) of
        Inl e \<Rightarrow> Inl e
      | Inr obd_miles \<Rightarrow>
      (let obd_time = time_of (obdOdometerMeters vehicle)
       in
       case miles_of (gpsDistanceMeters vehicle) of
        Inl e \<Rightarrow> Inl e
      | Inr gps_miles \<Rightarrow>
      (let gps_time = time_of (gpsDistanceMeters vehicle)
       in
       case find_excel_match na_repr vehicle_name samsara_vin excel_df of
        None \<Rightarrow> Inr None
      | Some excel_match \<Rightarrow>
          (case extract_excel_data excel_match excel_df of
             Inl e \<Rightarrow> Inl e
           | Inr excel_data \<Rightarrow>
               (case calculate_days_remaining (now 0) (Some (annual_date excel_data)) of
                  Inl e \<Rightarrow> Inl e
                | Inr annual_days \<Rightarrow>
               (case calculate_days_remaining (now 1) (Some (pm_date excel_data)) of
                  Inl e \<Rightarrow> Inl e
                | Inr pm_days \<Rightarrow>
               (case calculate_days_remaining (now 2) (Some (pm_insp_date excel_data)) of
                  Inl e \<Rightarrow> Inl e
                | Inr pm_insp_days \<Rightarrow>
                    Inr (Some
                      \<lparr>Vehicle_ID = vehicle_id,
                       Vehicle_Name = vehicle_name,
                       VIN = samsara_vin,
                       Serial = serial,
                       OBD_Odometer_Miles = py_int obd_miles,
                       GPS_Distance_Miles = py_int gps_miles,
                       OBD_Last_Update = obd_time,
                       GPS_Last_Update = gps_time,
                       Status = status excel_data,
                       Annual_Date = annual_date excel_data,
                       Annual_Days_Remaining = annual_days,
                       PM_Date = pm_date excel_data,
                       PM_Days_Remaining = pm_days,
                       PM_Insp_Date = pm_insp_date excel_data,
                       PM_Insp_Days_Remaining = pm_insp_days,
                       Annual_Alert = get_alert_status annual_days,
                       PM_Alert = get_alert_status pm_days,
                       PM_Insp_Alert = get_alert_status pm_insp_days\<rparr>))))))))))"

text \<open>
  The loop: \<open>clock i\<close> gives the instants read while the vehicle at position \<open>i\<close> is
  processed. An exception in any iteration leaves the function.
\<close>

fun process_loop ::
  "string option \<Rightarrow> (nat \<Rightarrow> nat \<Rightarrow> datetime) \<Rightarrow> nat \<Rightarrow> vehicle list \<Rightarrow> dataframe
     \<Rightarrow> py_error + combined_info list" where
  "process_loop na_repr clock i [] excel_df = Inr []"
| "process_loop na_repr clock i (vehicle # vehicles) excel_df =
     (case process_vehicle na_repr (clock i) vehicle excel_df of
        Inl e \<Rightarrow> Inl e
      | Inr r \<Rightarrow>
          (case process_loop na_repr clock (Suc i) vehicles excel_df of
             Inl e \<Rightarrow> Inl e
           | Inr combined_data \<Rightarrow>
               Inr (case r of None \<Rightarrow> combined_data | Some info \<Rightarrow> info # combined_data)))"

text \<open>\<^verbatim>\<open>process_combined_data\<close>; the result frame is the list of its records.\<close>

definition process_combined_data ::
  "string option \<Rightarrow> (nat \<Rightarrow> nat \<Rightarrow> datetime) \<Rightarrow> vehicle list \<Rightarrow> dataframe
     \<Rightarrow> py_error + combined_info list" where
  "process_combined_data na_repr clock samsara_data excel_df =
     (if samsara_data = [] \<or> df_empty excel_df then Inr []
      else process_loop na_repr clock 0 samsara_data excel_df)"
section \<open>Vocabulary of the properties\<close>

subsection \<open>Cleaning\<close>

text \<open>The first cell of a row, null when the row has no cell.\<close>

definition first_cell :: "cell list \<Rightarrow> cell" where
  "first_cell r = (case r of [] \<Rightarrow> None | x # _ \<Rightarrow> x)"

text \<open>The frame after the first step of cleaning: a leading unnamed column is gone.\<close>

definition unnamed_dropped :: "dataframe \<Rightarrow> dataframe" where
  "unnamed_dropped df =
     (case columns df of
        [] \<Rightarrow> df
      | c0 # _ \<Rightarrow> if startswith c0 ''Unnamed'' then iloc_cols_from1 df else df)"

text \<open>The first column is named as pandas names a column with a blank header cell.\<close>

definition leading_unnamed :: "dataframe \<Rightarrow> bool" where
  "leading_unnamed df =
     (case columns df of [] \<Rightarrow> False | c0 # _ \<Rightarrow> startswith c0 ''Unnamed'')"

definition excluded :: "cell \<Rightarrow> bool" where
  "excluded c = (c = Some ''OLD'' \<or> c = Some ''DKD'' \<or> c = Some ''GNS'' \<or> c = Some ''SOLD'')"

definition rows_filtered_df :: "dataframe \<Rightarrow> dataframe" where
  "rows_filtered_df df = df\<lparr>rows := filter (\<lambda>(l, r). \<not> excluded (first_cell r)) (rows df)\<rparr>"

subsection \<open>Matching\<close>

text \<open>The label of the first row whose cell under \<open>col\<close> reads \<open>key\<close>.\<close>

definition col_match :: "string option \<Rightarrow> dataframe \<Rightarrow> string \<Rightarrow> string \<Rightarrow> nat option" where
  "col_match na_repr df col key =
     (case filter (\<lambda>(l, c). astype_str na_repr c = Some key) (getitem_col df col) of
        [] \<Rightarrow> None
      | (l, c) # _ \<Rightarrow> Some l)"

text \<open>The leftmost column whose upper-cased name passes the test \<open>p\<close>.\<close>

definition first_candidate :: "(string \<Rightarrow> bool) \<Rightarrow> string list \<Rightarrow> string option" where
  "first_candidate p cols = List.find (\<lambda>col. p (str_upper col)) cols"

text \<open>The leftmost such column that also holds a cell reading \<open>key\<close>.\<close>

definition first_hit ::
  "string option \<Rightarrow> (string \<Rightarrow> bool) \<Rightarrow> string \<Rightarrow> dataframe \<Rightarrow> string option" where
  "first_hit na_repr p key df =
     List.find (\<lambda>col. p (str_upper col) \<and> col_match na_repr df col key \<noteq> None) (columns df)"

subsection \<open>Extraction\<close>

text \<open>
  The semantic role of a column: the first of the four tests its upper-cased name passes.
\<close>

datatype role = Status | Annual | PmDate | PmInsp

definition role_of :: "string \<Rightarrow> role option" where
  "role_of col =
     (let u = str_upper col in
      if str_in ''STATUS'' u then Some Status
      else if str_in ''ANNUAL'' u then Some Annual
      else if str_in ''PM'' u \<and> str_in ''DATE'' u then Some PmDate
      else if str_in ''PM'' u \<and> str_in ''INSP'' u then Some PmInsp
      else None)"

text \<open>The text of the last column holding role \<open>ro\<close>, empty when no column holds it.\<close>

definition role_value :: "role \<Rightarrow> string list \<Rightarrow> cell list \<Rightarrow> string" where
  "role_value ro cols row =
     (case filter (\<lambda>col. role_of col = Some ro) cols of
        [] \<Rightarrow> []
      | c # cs \<Rightarrow> cell_text (cell_of cols row (last (c # cs))))"

definition get_role :: "role \<Rightarrow> excel_data \<Rightarrow> string" where
  "get_role ro d =
     (case ro of
        Status \<Rightarrow> status d
      | Annual \<Rightarrow> annual_date d
      | PmDate \<Rightarrow> pm_date d
      | PmInsp \<Rightarrow> pm_insp_date d)"

section \<open>Example data\<close>

text \<open>
  A raw sheet with a leading unnamed column, rows to exclude, near misses of the
  exclusion literals, a null first cell, and a column after the VIN column.
\<close>

definition raw_sheet :: dataframe where
  "raw_sheet =
     \<lparr>columns = [''Unnamed: 0'', ''TRUCK'', ''VIN'', ''NOTE''],
      rows = [(0, [None, Some ''OLD'', Some ''V0'', None]),
              (1, [None, Some ''old'', Some ''V1'', None]),
              (2, [None, Some ''SOLD'', Some ''V2'', Some ''x'']),
              (3, [None, Some ''SOLD OUT'', Some ''V3'', None]),
              (4, [None, None, Some ''V4'', None]),
              (5, [None, Some ''T-1'', Some ''V5'', None])]\<rparr>"

definition cleaned_sheet :: dataframe where
  "cleaned_sheet =
     \<lparr>columns = [''TRUCK'', ''VIN''],
      rows = [(1, [Some ''old'', Some ''V1'']),
              (3, [Some ''SOLD OUT'', Some ''V3'']),
              (4, [None, Some ''V4'']),
              (5, [Some ''T-1'', Some ''V5''])]\<rparr>"

text \<open>A sheet whose first two header cells are blank, and its two successive cleanings.\<close>

definition two_unnamed :: dataframe where
  "two_unnamed =
     \<lparr>columns = [''Unnamed: 0'', ''Unnamed: 1'', ''VIN''],
      rows = [(0, [None, None, Some ''1FT123''])]\<rparr>"

definition two_unnamed_once :: dataframe where
  "two_unnamed_once =
     \<lparr>columns = [''Unnamed: 1'', ''VIN''], rows = [(0, [None, Some ''1FT123''])]\<rparr>"

definition two_unnamed_twice :: dataframe where
  "two_unnamed_twice = \<lparr>columns = [''VIN''], rows = [(0, [Some ''1FT123''])]\<rparr>"

text \<open>A cleaned sheet with two columns that pass the identifier test.\<close>

definition two_id_columns :: dataframe where
  "two_id_columns =
     \<lparr>columns = [''TRUCK'', ''UNIT ID'', ''VIN''],
      rows = [(0, [Some ''T-100'', Some ''100'', Some ''1FT123'']),
              (1, [Some ''T-200'', Some ''200'', Some ''1FT456''])]\<rparr>"

text \<open>A sheet whose only identifier cell is null.\<close>

definition null_id_sheet :: dataframe where
  "null_id_sheet = \<lparr>columns = [''TRUCK''], rows = [(0, [None])]\<rparr>"

text \<open>A sheet with several columns per role, one of them passing two tests.\<close>

definition dated_sheet :: dataframe where
  "dated_sheet =
     \<lparr>columns = [''Truck'', ''Status'', ''Annual Date'', ''PM Date'', ''PM Status Date'',
                 ''Next PM date'', ''PM Insp''],
      rows = [(0, [Some ''T-1'', Some ''Active'', Some ''01/01/2020'', Some ''02/02/2021'',
                   Some ''Sold'', None, Some ''2021-03-03''])]\<rparr>"

section \<open>Vocabulary of the date properties\<close>

text \<open>
  An instant that \<^verbatim>\<open>datetime.now()\<close> can return: a valid date and a time of day.
\<close>

definition valid_datetime :: "datetime \<Rightarrow> bool" where
  "valid_datetime t =
     (check_date_fields (year t) (month t) (day t)
      \<and> 0 \<le> hour t \<and> hour t < 24 \<and> 0 \<le> minute t \<and> minute t < 60
      \<and> 0 \<le> second t \<and> second t < 60 \<and> 0 \<le> microsecond t \<and> microsecond t < 1000000)"

definition at_midnight :: "datetime \<Rightarrow> bool" where
  "at_midnight t = (hour t = 0 \<and> minute t = 0 \<and> second t = 0 \<and> microsecond t = 0)"

text \<open>The instant at which a calendar date begins.\<close>

definition midnight_of :: "int \<Rightarrow> int \<Rightarrow> int \<Rightarrow> datetime" where
  "midnight_of y m d =
     \<lparr>year = y, month = m, day = d, hour = 0, minute = 0, second = 0, microsecond = 0\<rparr>"

text \<open>
  The date a text denotes: the result of the first of the given formats that parses it.
\<close>

fun first_parse :: "string \<Rightarrow> string list \<Rightarrow> datetime option" where
  "first_parse s [] = None"
| "first_parse s (fmt # fmts) =
     (case strptime s fmt of Inr t \<Rightarrow> Some t | Inl e \<Rightarrow> first_parse s fmts)"

text \<open>
  Formatting a date under a format, with two-digit months and days and four-digit years,
  each padded with zeros, as the standard library documents \<^verbatim>\<open>%m\<close>, \<^verbatim>\<open>%d\<close> and
  \<^verbatim>\<open>%Y\<close>.
\<close>

definition digit_char :: "int \<Rightarrow> char" where
  "digit_char k = ''0123456789'' ! nat k"

definition pad2 :: "int \<Rightarrow> string" where
  "pad2 n = [digit_char (n div 10), digit_char (n mod 10)]"

definition pad4 :: "int \<Rightarrow> string" where
  "pad4 n =
     [digit_char (n div 1000), digit_char (n div 100 mod 10), digit_char (n div 10 mod 10),
      digit_char (n mod 10)]"

definition field_text :: "char \<Rightarrow> ymd \<Rightarrow> string" where
  "field_text c t =
     (case t of (y, m, d) \<Rightarrow>
        if c = CHR ''Y'' then pad4 y
        else if c = CHR ''m'' then pad2 m
        else if c = CHR ''d'' then pad2 d
        else [])"

fun strftime :: "string \<Rightarrow> ymd \<Rightarrow> string" where
  "strftime [] t = []"
| "strftime [c] t = [c]"
| "strftime (c # d # fmt) t =
     (if c = CHR ''%'' then field_text d t @ strftime fmt t else c # strftime (d # fmt) t)"

text \<open>The characters of a format that stand for themselves.\<close>

fun fmt_literals :: "string \<Rightarrow> string" where
  "fmt_literals [] = []"
| "fmt_literals [c] = (if c = CHR ''%'' then [] else [c])"
| "fmt_literals (c # d # fmt) =
     (if c = CHR ''%'' then fmt_literals fmt else c # fmt_literals (d # fmt))"

text \<open>An instant in the middle of a day.\<close>

definition noon_2024_01_15 :: datetime where
  "noon_2024_01_15 =
     \<lparr>year = 2024, month = 1, day = 15, hour = 12, minute = 30, second = 0, microsecond = 0\<rparr>"

section \<open>Vocabulary of the reconciliation properties\<close>

text \<open>The meters of a reading, when the reading and its value are present.\<close>

definition meters :: "reading json_key \<Rightarrow> int option" where
  "meters data = (case data of JsonValue r \<Rightarrow> r_value r | _ \<Rightarrow> None)"

text \<open>
  The mileage of a reading in the words of the specification, in exact arithmetic: the
  meters divided by 1609.34 and rounded to the nearest integer when the reading's value
  is present, and 0 when the reading or its value is absent. No whole number of meters
  lies half way between two integers of miles, so the nearest integer is unique.
\<close>

definition spec_miles :: "reading json_key \<Rightarrow> int" where
  "spec_miles data =
     (case meters data of
        None \<Rightarrow> 0
      | Some m \<Rightarrow> round (of_int m / (160934 / 100) :: rat))"

text \<open>A reading of at most \<open>10 ^ 13\<close> meters in magnitude, or none.\<close>

definition in_range :: "reading json_key \<Rightarrow> bool" where
  "in_range data = (case meters data of None \<Rightarrow> True | Some m \<Rightarrow> \<bar>m\<bar> \<le> 10 ^ 13)"

text \<open>
  The integer \<open>k\<close> is \<open>x\<close> rounded: the integer nearest to \<open>x\<close>, and the even one of
  the two when \<open>x\<close> lies half way between two integers.
\<close>

definition rounds_to :: "rat \<Rightarrow> int \<Rightarrow> bool" where
  "rounds_to x k = (\<bar>x - of_int k\<bar> < 1 / 2 \<or> (\<bar>x - of_int k\<bar> = 1 / 2 \<and> even k))"

text \<open>
  The binary64 quotient of \<open>m\<close> meters by 1609.34: the integer converted, the division
  rounded.
\<close>

definition float_quotient :: "int \<Rightarrow> rat" where
  "float_quotient m = fl64 (fl64 (of_int m) / meters_per_mile)"

text \<open>
  The field \<open>k\<close> is the binary64 quotient of the reading rounded, or 0 for an absent
  reading.
\<close>

definition rounded_quotient :: "reading json_key \<Rightarrow> int \<Rightarrow> bool" where
  "rounded_quotient data k =
     (case meters data of None \<Rightarrow> k = 0 | Some m \<Rightarrow> rounds_to (float_quotient m) k)"

text \<open>
  The field \<open>k\<close> is the mileage of the reading: always the rounded binary64 quotient,
  and on a reading in range the mileage of the specification.
\<close>

definition mileage :: "reading json_key \<Rightarrow> int \<Rightarrow> bool" where
  "mileage data k = (rounded_quotient data k \<and> (\<not> in_range data \<or> k = spec_miles data))"

text \<open>The VIN that the matching uses for a vehicle.\<close>

definition vin_of :: "vehicle \<Rightarrow> string" where
  "vin_of v = (case externalIds v of JsonValue d \<Rightarrow> get_default (ext_vin d) [] | _ \<Rightarrow> [])"

text \<open>A vehicle finds a match in the sheet.\<close>

definition matched :: "string option \<Rightarrow> dataframe \<Rightarrow> vehicle \<Rightarrow> bool" where
  "matched na_repr df v =
     (find_excel_match na_repr (get_default (v_name v) []) (vin_of v) df \<noteq> None)"

text \<open>
  A vehicle whose record raises no exception of its own: no key holds \<^verbatim>\<open>null\<close> and
  every reading is below \<open>2 ^ 53\<close> meters in magnitude.
\<close>

definition reading_ok :: "reading json_key \<Rightarrow> bool" where
  "reading_ok data =
     (data \<noteq> JsonNull \<and> (case meters data of None \<Rightarrow> True | Some m \<Rightarrow> \<bar>m\<bar> < 2 ^ 53))"

definition vehicle_ok :: "vehicle \<Rightarrow> bool" where
  "vehicle_ok v =
     (externalIds v \<noteq> JsonNull \<and> reading_ok (obdOdometerMeters v)
      \<and> reading_ok (gpsDistanceMeters v))"

text \<open>The row labels of a frame are the row positions, as in a frame freshly read.\<close>

definition positional :: "dataframe \<Rightarrow> bool" where
  "positional df = (map fst (rows df) = [0..<length (rows df)])"

text \<open>A clock that stands still in the middle of a day.\<close>

definition still_clock :: "nat \<Rightarrow> nat \<Rightarrow> datetime" where
  "still_clock i k = noon_2024_01_15"

text \<open>
  One vehicle with an odometer reading of 160934 meters, a GPS distance of 2415 meters
  (1.5006 miles) and no external identifiers, a second vehicle unknown to the sheet, and a
  sheet with one row for the first.
\<close>

definition truck_1 :: vehicle where
  "truck_1 =
     \<lparr>v_id = Some ''281474977075805'', v_name = Some ''T-1'', externalIds = KeyMissing,
      obdOdometerMeters =
        JsonValue \<lparr>r_value = Some 160934, r_time = Some ''2024-01-15T10:00:00Z''\<rparr>,
      gpsDistanceMeters =
        JsonValue \<lparr>r_value = Some 2415, r_time = Some ''2024-01-15T09:00:00Z''\<rparr>\<rparr>"


text \<open>Readings of \<open>m\<close> meters, and a vehicle whose odometer key holds \<^verbatim>\<open>null\<close>.\<close>

definition reading_of :: "int \<Rightarrow> reading json_key" where
  "reading_of m = JsonValue \<lparr>r_value = Some m, r_time = None\<rparr>"

definition truck_null :: vehicle where
  "truck_null =
     \<lparr>v_id = None, v_name = Some ''X-9'', externalIds = KeyMissing,
      obdOdometerMeters = JsonNull, gpsDistanceMeters = KeyMissing\<rparr>"

definition one_row_sheet :: dataframe where
  "one_row_sheet =
     \<lparr>columns = [''TRUCK_ID'', ''STATUS'', ''ANNUAL_DATE''],
      rows = [(0, [Some ''T-1'', Some ''Active'', Some ''01/01/2020''])]\<rparr>"

text \<open>
  A raw sheet whose first row is to be excluded, and what cleaning leaves of it: the one
  surviving row keeps its label 1.
\<close>

definition sheet_with_old_row :: dataframe where
  "sheet_with_old_row =
     \<lparr>columns = [''TRUCK_ID'', ''STATUS'', ''ANNUAL_DATE''],
      rows = [(0, [Some ''OLD'', Some ''Sold'', None]),
              (1, [Some ''T-1'', Some ''Active'', Some ''01/01/2020''])]\<rparr>"

definition sheet_without_old_row :: dataframe where
  "sheet_without_old_row =
     \<lparr>columns = [''TRUCK_ID'', ''STATUS'', ''ANNUAL_DATE''],
      rows = [(1, [Some ''T-1'', Some ''Active'', Some ''01/01/2020''])]\<rparr>"


section \<open>Properties\<close>

subsection \<open>Evaluating the examples\<close>

lemmas frame_eval =
  clean_excel_data_def df_empty_def startswith_def iloc_cols_from1_def filters_to_remove_def
  drop_rows_eq_def cell_of_def str_upper_def upper_char_def iloc_cols_upto_def
  unnamed_dropped_def first_cell_def getitem_col_def astype_str_def col_match_def
  first_candidate_def first_hit_def is_id_col_def is_vin_col_def find_excel_match_def
  extract_excel_data_def iloc_row_def extract_step_def cell_text_def role_of_def role_value_def

lemma clean_raw_sheet: "clean_excel_data raw_sheet = Inr cleaned_sheet"
  by (simp add: raw_sheet_def cleaned_sheet_def frame_eval)

subsection \<open>Cleaning\<close>

lemma cell_of_first: "cell_of (c # cs) r c = first_cell r"
  by (cases r) (simp_all add: cell_of_def first_cell_def)

lemma columns_drop_rows_eq [simp]: "columns (drop_rows_eq col df v) = columns df"
  by (simp add: drop_rows_eq_def)

lemma columns_foldl_drop: "columns (foldl (drop_rows_eq col) df vs) = columns df"
  by (induction vs arbitrary: df) simp_all

lemma rows_drop_rows_eq [simp]:
  "rows (drop_rows_eq col df v) =
     filter (\<lambda>(l, r). cell_of (columns df) r col \<noteq> Some v) (rows df)"
  by (simp add: drop_rows_eq_def)

lemma rows_foldl_drop:
  "rows (foldl (drop_rows_eq col) df vs) =
     filter (\<lambda>(l, r). cell_of (columns df) r col \<notin> Some ` set vs) (rows df)"
proof (induction vs arbitrary: df)
  case Nil
  then show ?case by simp
next
  case (Cons v vs)
  have "rows (foldl (drop_rows_eq col) (drop_rows_eq col df v) vs) =
        filter (\<lambda>(l, r). cell_of (columns df) r col \<notin> Some ` set vs)
          (filter (\<lambda>(l, r). cell_of (columns df) r col \<noteq> Some v) (rows df))"
    using Cons.IH [of "drop_rows_eq col df v"] by simp
  then show ?case by (auto intro: filter_cong simp: case_prod_unfold)
qed

lemma excluded_iff: "c \<in> Some ` set filters_to_remove \<longleftrightarrow> excluded c"
  by (auto simp: filters_to_remove_def excluded_def)

lemma rows_filtered:
  "rows (foldl (drop_rows_eq c) df filters_to_remove) =
     filter (\<lambda>(l, r). \<not> excluded (cell_of (columns df) r c)) (rows df)"
  by (simp add: rows_foldl_drop excluded_iff)


lemma more_foldl_drop: "dataframe.more (foldl (drop_rows_eq col) df vs) = dataframe.more df"
  by (induction vs arbitrary: df) (simp_all add: drop_rows_eq_def)

lemma foldl_drop_first:
  assumes "columns df = c # cs"
  shows "foldl (drop_rows_eq c) df filters_to_remove = rows_filtered_df df"
proof -
  have "rows (foldl (drop_rows_eq c) df filters_to_remove) = rows (rows_filtered_df df)"
    using assms by (simp add: rows_filtered rows_filtered_df_def cell_of_first)
  then show ?thesis
    by (simp add: dataframe.equality columns_foldl_drop more_foldl_drop rows_filtered_df_def)
qed

lemma clean_unfold:
  assumes "\<not> df_empty df"
  shows "clean_excel_data df =
     (case columns (unnamed_dropped df) of
        [] \<Rightarrow> Inl IndexError
      | c # cs \<Rightarrow>
         (case find_vin_index (columns (unnamed_dropped df)) 0 of
            None \<Rightarrow> Inr (rows_filtered_df (unnamed_dropped df))
          | Some i \<Rightarrow> Inr (iloc_cols_upto (rows_filtered_df (unnamed_dropped df)) (i + 1))))"
proof -
  obtain c0 cs0 where c0: "columns df = c0 # cs0"
    using assms by (cases "columns df") (simp_all add: df_empty_def)
  have ud: "unnamed_dropped df = (if startswith c0 ''Unnamed'' then iloc_cols_from1 df else df)"
    by (simp add: unnamed_dropped_def c0)
  show ?thesis
  proof (cases "columns (unnamed_dropped df)")
    case Nil
    then show ?thesis using assms c0 ud by (simp add: clean_excel_data_def)
  next
    case (Cons c cs)
    have cf: "columns (rows_filtered_df (unnamed_dropped df)) = columns (unnamed_dropped df)"
      by (simp add: rows_filtered_df_def)
    have "clean_excel_data df =
        (let df2 = foldl (drop_rows_eq c) (unnamed_dropped df) filters_to_remove in
         case find_vin_index (columns df2) 0 of
           None \<Rightarrow> Inr df2
         | Some vin_index \<Rightarrow> Inr (iloc_cols_upto df2 (vin_index + 1)))"
      using assms c0 ud Cons by (simp add: clean_excel_data_def)
    then show ?thesis
      using Cons by (simp add: foldl_drop_first [OF Cons] cf Let_def del: find_vin_index.simps)
  qed
qed

lemma find_vin_index_take:
  "find_vin_index cols k = Some j \<Longrightarrow>
     k \<le> j \<and> j - k < length cols \<and> find_vin_index (take (j - k + 1) cols) k = Some j"
proof (induction cols arbitrary: k)
  case Nil
  then show ?case by simp
next
  case (Cons c cols)
  show ?case
  proof (cases "str_in ''VIN'' (str_upper c)")
    case True
    then show ?thesis using Cons.prems by simp
  next
    case False
    then have f: "find_vin_index cols (Suc k) = Some j" using Cons.prems by simp
    from Cons.IH [OF f] have ih: "Suc k \<le> j" "j - Suc k < length cols"
      "find_vin_index (take (j - Suc k + 1) cols) (Suc k) = Some j" by auto
    have "j - k + 1 = Suc (j - Suc k + 1)" using ih(1) by simp
    then show ?thesis using ih False by simp
  qed
qed

lemma first_cell_take: "0 < n \<Longrightarrow> first_cell (take n r) = first_cell r"
  by (cases r; cases n) (simp_all add: first_cell_def)

lemma filter_rows_idem:
  assumes "0 < n"
  shows "filter (\<lambda>(l, r). \<not> excluded (first_cell r))
           (map (\<lambda>(l, r). (l, take n r)) (filter (\<lambda>(l, r). \<not> excluded (first_cell r)) xs))
         = map (\<lambda>(l, r). (l, take n r)) (filter (\<lambda>(l, r). \<not> excluded (first_cell r)) xs)"
  by (induction xs) (auto simp: first_cell_take [OF assms])

lemma take_take_comp:
  "(\<lambda>(l :: nat, r :: cell list). (l, take n r)) \<circ> (\<lambda>(l, r). (l, take n r)) = (\<lambda>(l, r). (l, take n r))"
  by (auto simp: fun_eq_iff)

text \<open>
  Claim C7. In the row filter of \<^verbatim>\<open>clean_excel_data\<close>, a row of the frame (after
  the unnamed column, if any, was dropped) is absent from the cleaned result if and only
  if its first-column value is exactly one of \<^verbatim>\<open>OLD\<close>, \<^verbatim>\<open>DKD\<close>, \<^verbatim>\<open>GNS\<close>,
  \<^verbatim>\<open>SOLD\<close>: the labels of the cleaned rows are, in order, the labels of the rows
  whose first cell is none of the four literals. Near misses such as \<^verbatim>\<open>old\<close> or
  \<^verbatim>\<open>SOLD OUT\<close>, and null cells, are retained.
\<close>

theorem clean_row_filter:
  assumes "clean_excel_data df = Inr c" and "\<not> df_empty df"
  shows "map fst (rows c) =
         map fst (filter (\<lambda>(l, r). first_cell r \<notin> {Some ''OLD'', Some ''DKD'', Some ''GNS'', Some ''SOLD''})
                    (rows (unnamed_dropped df)))"
proof -
  have e: "(\<lambda>(l :: nat, r). first_cell r \<notin> {Some ''OLD'', Some ''DKD'', Some ''GNS'', Some ''SOLD''})
           = (\<lambda>(l, r). \<not> excluded (first_cell r))"
    by (auto simp: excluded_def)
  have m: "map fst (map (\<lambda>(l, r). (l, f r)) xs) = map fst xs" for f :: "cell list \<Rightarrow> cell list" and xs :: "(nat \<times> cell list) list"
    by (induction xs) auto
  show ?thesis
    using assms(1) unfolding clean_unfold [OF assms(2)] e
    by (auto split: list.splits option.splits simp: rows_filtered_df_def iloc_cols_upto_def m)
qed

theorem clean_row_filter_witness:
  "clean_excel_data raw_sheet = Inr cleaned_sheet \<and> \<not> df_empty raw_sheet
   \<and> map fst (rows cleaned_sheet) =
       map fst (filter (\<lambda>(l, r). first_cell r \<notin> {Some ''OLD'', Some ''DKD'', Some ''GNS'', Some ''SOLD''})
                  (rows (unnamed_dropped raw_sheet)))
   \<and> map fst (rows cleaned_sheet) = [1, 3, 4, 5]"
proof -
  have h2: "\<not> df_empty raw_sheet" by (simp add: raw_sheet_def df_empty_def)
  have e: "map fst (rows cleaned_sheet) = [1, 3, 4, 5]" by (simp add: cleaned_sheet_def)
  from clean_raw_sheet h2 clean_row_filter [OF clean_raw_sheet h2] e show ?thesis by blast
qed

text \<open>
  Claim C6, as amended. Cleaning is idempotent on every result of cleaning that does not
  itself begin with an unnamed column: if \<^verbatim>\<open>clean_excel_data\<close> returns \<open>c\<close> and the
  first column of \<open>c\<close>, if any, has no name starting with \<^verbatim>\<open>Unnamed\<close>, then cleaning \<open>c\<close>
  returns \<open>c\<close>. Only one leading unnamed column is dropped per pass.
\<close>

theorem clean_idempotent_without_second_unnamed:
  assumes c: "clean_excel_data df = Inr c"
    and nu: "\<not> leading_unnamed c"
  shows "clean_excel_data c = Inr c"
proof (cases "df_empty df")
  case True
  then have "c = df" using c by (simp add: clean_excel_data_def)
  then show ?thesis using True by (simp add: clean_excel_data_def)
next
  case False
  define s where "s = unnamed_dropped df"
  show ?thesis
  proof (cases "df_empty c")
    case True
    then show ?thesis by (simp add: clean_excel_data_def)
  next
    case ne: False
    have udc: "unnamed_dropped c = c"
      using nu by (auto simp: unnamed_dropped_def leading_unnamed_def split: list.splits)
    from c obtain fc cs where s: "columns s = fc # cs"
      unfolding clean_unfold [OF False] s_def by (auto split: list.splits)
    show ?thesis
    proof (cases "find_vin_index (columns s) 0")
      case None
      then have ceq: "c = rows_filtered_df s"
        using c s unfolding clean_unfold [OF False] s_def by simp
      have "rows_filtered_df (rows_filtered_df s) = rows_filtered_df s"
        by (simp add: rows_filtered_df_def)
      then show ?thesis
        unfolding clean_unfold [OF ne] udc using None s
        by (simp add: ceq rows_filtered_df_def)
    next
      case (Some i)
      then have ceq: "c = iloc_cols_upto (rows_filtered_df s) (i + 1)"
        using c s unfolding clean_unfold [OF False] s_def by simp
      from find_vin_index_take [OF Some]
      have fv: "find_vin_index (take (i + 1) (columns s)) 0 = Some i" by simp
      have cc: "columns c = take (i + 1) (columns s)"
        by (simp add: ceq iloc_cols_upto_def rows_filtered_df_def)
      have cne: "columns c = fc # take i cs" using cc s by simp
      have rf: "rows_filtered_df c = c"
        unfolding ceq rows_filtered_df_def iloc_cols_upto_def
        using filter_rows_idem [of "i + 1" "rows s"] by simp
      have it: "iloc_cols_upto c (i + 1) = c"
        unfolding ceq iloc_cols_upto_def by (simp add: take_take_comp)
      show ?thesis
        unfolding clean_unfold [OF ne] udc rf using fv cne it by (simp add: cc)
    qed
  qed
qed

theorem clean_idempotent_witness:
  "clean_excel_data raw_sheet = Inr cleaned_sheet
   \<and> \<not> leading_unnamed cleaned_sheet
   \<and> clean_excel_data cleaned_sheet = Inr cleaned_sheet"
proof -
  have nu: "\<not> leading_unnamed cleaned_sheet"
    by (simp add: cleaned_sheet_def leading_unnamed_def startswith_def)
  from clean_raw_sheet nu clean_idempotent_without_second_unnamed [OF clean_raw_sheet nu]
  show ?thesis by blast
qed

text \<open>
  A sheet with two leading unnamed columns loses one of them in each pass, so the second
  cleaning differs from the first.
\<close>

theorem clean_not_idempotent:
  "clean_excel_data two_unnamed = Inr two_unnamed_once
   \<and> leading_unnamed two_unnamed_once
   \<and> clean_excel_data two_unnamed_once = Inr two_unnamed_twice
   \<and> two_unnamed_twice \<noteq> two_unnamed_once"
  by (simp add: two_unnamed_def two_unnamed_once_def two_unnamed_twice_def frame_eval
        leading_unnamed_def)

subsection \<open>Matching\<close>

lemma match_loop_find:
  "match_loop na_repr p key df cols =
     (case List.find (\<lambda>col. p (str_upper col) \<and> col_match na_repr df col key \<noteq> None) cols of
        None \<Rightarrow> None
      | Some col \<Rightarrow> col_match na_repr df col key)"
  by (induction cols) (auto simp: col_match_def split: list.splits)

text \<open>
  A null cell in an identifier column matches a vehicle named \<^verbatim>\<open>nan\<close> before
  pandas 3 and matches nothing from pandas 3 on.
\<close>

lemma null_cell_matching:
  "find_excel_match (Some ''nan'') ''nan'' [] null_id_sheet = Some 0
   \<and> find_excel_match None ''nan'' [] null_id_sheet = None"
  by (simp add: null_id_sheet_def frame_eval)

text \<open>
  Claim C1, as amended. Each phase of \<^verbatim>\<open>find_excel_match\<close> consults its candidate
  columns from left to right and returns the label of the first matching row of the
  leftmost candidate column that holds a matching cell; a phase yields nothing only when
  no candidate column holds a matching cell. Phase 2 (the VIN columns) runs when phase 1
  yields nothing and the VIN is not empty. This holds whatever the pandas release makes
  of a null cell.
\<close>

theorem find_excel_match_candidates:
  "find_excel_match na_repr name vin df =
     (case first_hit na_repr is_id_col name df of
        Some col \<Rightarrow> col_match na_repr df col name
      | None \<Rightarrow>
          if vin = [] then None
          else (case first_hit na_repr is_vin_col vin df of
                  Some col \<Rightarrow> col_match na_repr df col vin
                | None \<Rightarrow> None))"
proof -
  have hit: "first_hit na_repr p key df = Some col \<Longrightarrow> col_match na_repr df col key \<noteq> None"
    for p key col
    unfolding first_hit_def by (auto simp: find_Some_iff)
  show ?thesis
    unfolding find_excel_match_def match_loop_find first_hit_def [symmetric]
    by (auto split: option.splits dest: hit)
qed

theorem find_excel_match_candidates_witness:
  "find_excel_match None ''100'' [] two_id_columns =
     (case first_hit None is_id_col ''100'' two_id_columns of
        Some col \<Rightarrow> col_match None two_id_columns col ''100''
      | None \<Rightarrow>
          if ([] :: string) = [] then None
          else (case first_hit None is_vin_col [] two_id_columns of
                  Some col \<Rightarrow> col_match None two_id_columns col []
                | None \<Rightarrow> None))
   \<and> first_hit None is_id_col ''100'' two_id_columns = Some ''UNIT ID''
   \<and> col_match None two_id_columns ''UNIT ID'' ''100'' = Some 0
   \<and> find_excel_match (Some ''nan'') ''100'' [] two_id_columns =
     (case first_hit (Some ''nan'') is_id_col ''100'' two_id_columns of
        Some col \<Rightarrow> col_match (Some ''nan'') two_id_columns col ''100''
      | None \<Rightarrow>
          if ([] :: string) = [] then None
          else (case first_hit (Some ''nan'') is_vin_col [] two_id_columns of
                  Some col \<Rightarrow> col_match (Some ''nan'') two_id_columns col []
                | None \<Rightarrow> None))
   \<and> first_hit (Some ''nan'') is_id_col ''100'' two_id_columns = Some ''UNIT ID''
   \<and> col_match (Some ''nan'') two_id_columns ''UNIT ID'' ''100'' = Some 0"
proof -
  have a: "first_hit na_repr is_id_col ''100'' two_id_columns = Some ''UNIT ID''" for na_repr
    by (simp add: two_id_columns_def frame_eval)
  have b: "col_match na_repr two_id_columns ''UNIT ID'' ''100'' = Some 0" for na_repr
    by (simp add: two_id_columns_def frame_eval)
  from find_excel_match_candidates [of None "''100''" "[]" two_id_columns]
    find_excel_match_candidates [of "Some ''nan''" "''100''" "[]" two_id_columns] a b
  show ?thesis by blast
qed

text \<open>
  On a cleaned sheet whose leftmost identifier column \<^verbatim>\<open>TRUCK\<close> holds no cell
  reading \<^verbatim>\<open>100\<close>, phase 1 still returns row 0, found in the later column
  \<^verbatim>\<open>UNIT ID\<close>, under either pandas behaviour.
\<close>

theorem later_id_column_is_consulted:
  "clean_excel_data two_id_columns = Inr two_id_columns
   \<and> first_candidate is_id_col (columns two_id_columns) = Some ''TRUCK''
   \<and> col_match None two_id_columns ''TRUCK'' ''100'' = None
   \<and> col_match None two_id_columns ''UNIT ID'' ''100'' = Some 0
   \<and> match_loop None is_id_col ''100'' two_id_columns (columns two_id_columns) = Some 0
   \<and> find_excel_match None ''100'' [] two_id_columns = Some 0
   \<and> col_match (Some ''nan'') two_id_columns ''TRUCK'' ''100'' = None
   \<and> col_match (Some ''nan'') two_id_columns ''UNIT ID'' ''100'' = Some 0
   \<and> match_loop (Some ''nan'') is_id_col ''100'' two_id_columns (columns two_id_columns) = Some 0
   \<and> find_excel_match (Some ''nan'') ''100'' [] two_id_columns = Some 0"
  by (simp add: two_id_columns_def frame_eval)

subsection \<open>Extraction\<close>

lemma get_role_step:
  "get_role ro (extract_step allcols row d col) =
     (if role_of col = Some ro then cell_text (cell_of allcols row col) else get_role ro d)"
  by (cases ro) (auto simp: extract_step_def role_of_def get_role_def Let_def)

lemma get_role_foldl:
  "get_role ro (foldl (extract_step allcols row) d cols) =
     (case filter (\<lambda>col. role_of col = Some ro) cols of
        [] \<Rightarrow> get_role ro d
      | c # cs \<Rightarrow> cell_text (cell_of allcols row (last (c # cs))))"
proof (induction cols rule: rev_induct)
  case Nil
  then show ?case by simp
next
  case (snoc x xs)
  then show ?case
    by (cases "filter (\<lambda>col. role_of col = Some ro) xs") (simp_all add: get_role_step)
qed

text \<open>
  Claim C4. For every row position inside the frame, \<^verbatim>\<open>extract_excel_data\<close> returns,
  and each column's cell goes to at most one semantic role, the first of the four tests
  (contains STATUS; contains ANNUAL; contains PM and DATE; contains PM and INSP, on the
  upper-cased name) that the column's name passes; when several columns hold the same
  role, the last of them from left to right gives the role's value, and a role that no
  column holds is empty.
\<close>

theorem extract_roles:
  assumes "i < length (rows df)"
  shows "\<exists>d. extract_excel_data i df = Inr d
     \<and> status d = role_value Status (columns df) (snd (rows df ! i))
     \<and> annual_date d = role_value Annual (columns df) (snd (rows df ! i))
     \<and> pm_date d = role_value PmDate (columns df) (snd (rows df ! i))
     \<and> pm_insp_date d = role_value PmInsp (columns df) (snd (rows df ! i))"
proof -
  define d0 where "d0 = \<lparr>status = [], annual_date = [], pm_date = [], pm_insp_date = []\<rparr>"
  define d where "d = foldl (extract_step (columns df) (snd (rows df ! i))) d0 (columns df)"
  have e: "extract_excel_data i df = Inr d"
    using assms by (simp add: extract_excel_data_def iloc_row_def d0_def d_def)
  have g: "get_role ro d = role_value ro (columns df) (snd (rows df ! i))" for ro
    unfolding d_def get_role_foldl role_value_def
    by (cases ro) (simp_all add: get_role_def d0_def split: list.splits)
  from g [of Status] g [of Annual] g [of PmDate] g [of PmInsp] e show ?thesis
    by (simp add: get_role_def)
qed

theorem extract_roles_witness:
  "(0::nat) < length (rows dated_sheet)
   \<and> (\<exists>d. extract_excel_data 0 dated_sheet = Inr d
     \<and> status d = role_value Status (columns dated_sheet) (snd (rows dated_sheet ! 0))
     \<and> annual_date d = role_value Annual (columns dated_sheet) (snd (rows dated_sheet ! 0))
     \<and> pm_date d = role_value PmDate (columns dated_sheet) (snd (rows dated_sheet ! 0))
     \<and> pm_insp_date d = role_value PmInsp (columns dated_sheet) (snd (rows dated_sheet ! 0)))
   \<and> extract_excel_data 0 dated_sheet =
       Inr \<lparr>status = ''Sold'', annual_date = ''01/01/2020'', pm_date = [],
            pm_insp_date = ''2021-03-03''\<rparr>
   \<and> map role_of (columns dated_sheet) =
       [None, Some Status, Some Annual, Some PmDate, Some Status, Some PmDate, Some PmInsp]"
proof -
  have h: "(0::nat) < length (rows dated_sheet)" by (simp add: dated_sheet_def)
  have v: "extract_excel_data 0 dated_sheet =
       Inr \<lparr>status = ''Sold'', annual_date = ''01/01/2020'', pm_date = [],
            pm_insp_date = ''2021-03-03''\<rparr>"
    by (simp add: dated_sheet_def frame_eval)
  have r: "map role_of (columns dated_sheet) =
       [None, Some Status, Some Annual, Some PmDate, Some Status, Some PmDate, Some PmInsp]"
    by (simp add: dated_sheet_def frame_eval)
  from h extract_roles [OF h] v r show ?thesis by blast
qed

subsection \<open>Alert boundaries\<close>

text \<open>
  Claim C3. \<^verbatim>\<open>get_alert_status\<close> is defined on every integer-or-absent day offset
  and respects exactly these boundaries: absent gives "No Data", every negative offset
  gives "OVERDUE", every offset from 0 to 30 inclusive gives "CRITICAL", every offset
  from 31 to 60 inclusive gives "WARNING", and every offset above 60 gives "OK".
\<close>

theorem get_alert_status_boundaries:
  "get_alert_status None = ''No Data''
   \<and> (\<forall>d. d < 0 \<longrightarrow> get_alert_status (Some d) = ''OVERDUE'')
   \<and> (\<forall>d. 0 \<le> d \<and> d \<le> 30 \<longrightarrow> get_alert_status (Some d) = ''CRITICAL'')
   \<and> (\<forall>d. 31 \<le> d \<and> d \<le> 60 \<longrightarrow> get_alert_status (Some d) = ''WARNING'')
   \<and> (\<forall>d. 60 < d \<longrightarrow> get_alert_status (Some d) = ''OK'')"
  by (simp add: get_alert_status_def)

theorem get_alert_status_boundaries_witness:
  "get_alert_status None = ''No Data''
   \<and> get_alert_status (Some (- 1)) = ''OVERDUE''
   \<and> get_alert_status (Some 0) = ''CRITICAL''
   \<and> get_alert_status (Some 30) = ''CRITICAL''
   \<and> get_alert_status (Some 31) = ''WARNING''
   \<and> get_alert_status (Some 60) = ''WARNING''
   \<and> get_alert_status (Some 61) = ''OK''"
proof -
  note b = get_alert_status_boundaries
  have o: "(- 1 :: int) < 0" by simp
  have c0: "(0::int) \<le> 0 \<and> (0::int) \<le> 30" by simp
  have c30: "(0::int) \<le> 30 \<and> (30::int) \<le> 30" by simp
  have w31: "(31::int) \<le> 31 \<and> (31::int) \<le> 60" by simp
  have w60: "(31::int) \<le> 60 \<and> (60::int) \<le> 60" by simp
  have k: "(60::int) < 61" by simp
  from b o c0 c30 w31 w60 k show ?thesis by blast
qed

subsection \<open>Digits and padded fields\<close>

lemma digit_cases:
  assumes "0 \<le> k" "k \<le> 9"
  shows "k = 0 \<or> k = 1 \<or> k = 2 \<or> k = 3 \<or> k = 4 \<or> k = 5 \<or> k = 6 \<or> k = 7 \<or> k = 8 \<or> k = (9::int)"
  using assms by arith

lemma digit_char_props:
  assumes "0 \<le> k" "k \<le> 9"
  shows "char_in (digit_char k) ''0123456789''" and "digit_val (digit_char k) = k"
  using digit_cases [OF assms] by (auto simp: digit_char_def digit_val_def char_in_def)

lemma re_m_pad2:
  assumes "1 \<le> m" "m \<le> 12" and "f (m, r) = Some x"
  shows "first_some f (re_m (pad2 m @ r)) = Some x"
proof -
  from assms(1,2) have "m = 1 \<or> m = 2 \<or> m = 3 \<or> m = 4 \<or> m = 5 \<or> m = 6 \<or> m = 7 \<or> m = 8
      \<or> m = 9 \<or> m = 10 \<or> m = 11 \<or> m = 12" by arith
  then show ?thesis
    using assms(3) by (elim disjE) (simp_all add: re_m_def pad2_def digit_char_def digit_val_def char_in_def)
qed

lemma upto_31: "[1..31::int] = [1,2,3,4,5,6,7,8,9,10,11,12,13,14,15,16,17,18,19,20,21,22,23,24,25,26,27,28,29,30,31]"
  by (simp add: upto_rec1)

lemma re_d_all: "\<forall>d \<in> set [1..31]. \<exists>rest. re_d (pad2 d @ r) = (d, r) # rest"
  unfolding upto_31
  by (simp add: re_d_def pad2_def digit_char_def digit_val_def char_in_def)

lemma re_d_pad2:
  assumes "1 \<le> d" "d \<le> 31" and "f (d, r) = Some x"
  shows "first_some f (re_d (pad2 d @ r)) = Some x"
proof -
  from assms(1,2) have "d \<in> set [1..31]" by simp
  with re_d_all obtain rest where "re_d (pad2 d @ r) = (d, r) # rest" by blast
  then show ?thesis using assms(3) by simp
qed

lemma re_Y_pad4:
  assumes "0 \<le> y" "y \<le> 9999"
  shows "re_Y (pad4 y @ r) = [(y, r)]"
proof -
  define a where "a = y div 1000"
  define b where "b = y div 100 mod 10"
  define c where "c = y div 10 mod 10"
  define d where "d = y mod 10"
  have ra: "0 \<le> a" "a \<le> 9" using assms by (auto simp: a_def)
  have rb: "0 \<le> b" "b \<le> 9" by (auto simp: b_def)
  have rc: "0 \<le> c" "c \<le> 9" by (auto simp: c_def)
  have rd: "0 \<le> d" "d \<le> 9" by (auto simp: d_def)
  have d1000: "y div 1000 = y div 100 div 10" using zdiv_zmult2_eq [of 10 y 100] by simp
  have d100: "y div 100 = y div 10 div 10" using zdiv_zmult2_eq [of 10 y 10] by simp
  have e1: "y div 100 = 10 * (y div 1000) + y div 100 mod 10" unfolding d1000 by simp
  have e2: "y div 10 = 10 * (y div 100) + y div 10 mod 10" unfolding d100 by simp
  have e3: "y = 10 * (y div 10) + y mod 10" by simp
  from e1 e2 e3 have sum: "1000 * a + 100 * b + 10 * c + d = y"
    unfolding a_def b_def c_def d_def by linarith
  have p: "pad4 y = [digit_char a, digit_char b, digit_char c, digit_char d]"
    by (simp add: pad4_def a_def b_def c_def d_def)
  show ?thesis
    unfolding p re_Y_def
    using digit_char_props [OF ra] digit_char_props [OF rb] digit_char_props [OF rc]
      digit_char_props [OF rd] sum
    by simp
qed

lemma first_some_Some: "first_some f xs = Some y \<Longrightarrow> \<exists>x \<in> set xs. f x = Some y"
  by (induction xs) (auto split: option.splits)

lemma pad2_digits:
  assumes "0 \<le> n" "n \<le> 99"
  shows "set (pad2 n) \<subseteq> set ''0123456789''"
proof -
  have a: "0 \<le> n div 10" "n div 10 \<le> 9" using assms by auto
  have b: "0 \<le> n mod 10" "n mod 10 \<le> 9" using pos_mod_bound [of 10 n] by auto
  show ?thesis
    using digit_char_props(1) [OF a] digit_char_props(1) [OF b] by (simp add: pad2_def char_in_def)
qed

lemma pad4_digits:
  assumes "0 \<le> n" "n \<le> 9999"
  shows "set (pad4 n) \<subseteq> set ''0123456789''"
proof -
  have a: "0 \<le> n div 1000" "n div 1000 \<le> 9" using assms by auto
  have b: "0 \<le> n div 100 mod 10" "n div 100 mod 10 \<le> 9" using pos_mod_bound [of 10 "n div 100"] by auto
  have c: "0 \<le> n div 10 mod 10" "n div 10 mod 10 \<le> 9" using pos_mod_bound [of 10 "n div 10"] by auto
  have d: "0 \<le> n mod 10" "n mod 10 \<le> 9" using pos_mod_bound [of 10 n] by auto
  show ?thesis
    using digit_char_props(1) [OF a] digit_char_props(1) [OF b] digit_char_props(1) [OF c]
      digit_char_props(1) [OF d] by (simp add: pad4_def char_in_def)
qed

lemma match_lit:
  "c \<noteq> CHR ''%'' \<Longrightarrow> match_fmt (c # fmt) (c # r) = match_fmt fmt r"
  by simp

lemma match_m:
  assumes "1 \<le> m" "m \<le> 12" and "match_fmt fmt r = Some (t, r')"
  shows "match_fmt (CHR ''%'' # CHR ''m'' # fmt) (pad2 m @ r) = Some (set_field CHR ''m'' m t, r')"
  using re_m_pad2 [OF assms(1,2), of "\<lambda>(v, r). map_option (\<lambda>(t, r'). (set_field CHR ''m'' v t, r')) (match_fmt fmt r)" r]
    assms(3) by (simp add: directive_def)

lemma match_d:
  assumes "1 \<le> d" "d \<le> 31" and "match_fmt fmt r = Some (t, r')"
  shows "match_fmt (CHR ''%'' # CHR ''d'' # fmt) (pad2 d @ r) = Some (set_field CHR ''d'' d t, r')"
  using re_d_pad2 [OF assms(1,2), of "\<lambda>(v, r). map_option (\<lambda>(t, r'). (set_field CHR ''d'' v t, r')) (match_fmt fmt r)" r]
    assms(3) by (simp add: directive_def)

lemma match_Y:
  assumes "0 \<le> y" "y \<le> 9999" and "match_fmt fmt r = Some (t, r')"
  shows "match_fmt (CHR ''%'' # CHR ''Y'' # fmt) (pad4 y @ r) = Some (set_field CHR ''Y'' y t, r')"
  using assms(3) by (simp add: directive_def re_Y_pad4 [OF assms(1,2)])

subsection \<open>What a match leaves unread\<close>

lemma re_m_drop: "snd ` set (re_m s) \<subseteq> {drop 1 s, drop 2 s}"
proof (cases s)
  case Nil
  then show ?thesis by (simp add: re_m_def)
next
  case (Cons a s1)
  then show ?thesis by (cases s1) (auto simp: re_m_def)
qed

lemma re_d_drop: "snd ` set (re_d s) \<subseteq> {drop 1 s, drop 2 s}"
proof (cases s)
  case Nil
  then show ?thesis by (simp add: re_d_def)
next
  case (Cons a s1)
  then show ?thesis by (cases s1) (auto simp: re_d_def)
qed

lemma re_Y_drop: "snd ` set (re_Y s) \<subseteq> {drop 4 s}"
  by (auto simp: re_Y_def split: list.splits)

lemma directive_rest:
  assumes "(v, r) \<in> set (directive d s)"
  shows "set r \<subseteq> set s"
proof -
  from assms have "r \<in> snd ` set (directive d s)" by force
  then have "r \<in> {drop 1 s, drop 2 s, drop 4 s}"
    using re_m_drop [of s] re_d_drop [of s] re_Y_drop [of s]
    by (auto simp: directive_def split: if_splits)
  then show ?thesis by (auto dest: in_set_dropD)
qed

lemma match_fmt_literals:
  "match_fmt fmt s = Some (t, r) \<Longrightarrow> set (fmt_literals fmt) \<subseteq> set s \<and> set r \<subseteq> set s"
proof (induction fmt arbitrary: s t r rule: fmt_literals.induct)
  case 1
  then show ?case by simp
next
  case (2 c)
  then show ?case by (auto split: if_splits list.splits)
next
  case (3 c d fmt)
  show ?case
  proof (cases "c = CHR ''%''")
    case True
    with "3.prems" obtain v r0 where
      vr: "(v, r0) \<in> set (directive d s)" and
      m: "map_option (\<lambda>(t, r'). (set_field d v t, r')) (match_fmt fmt r0) = Some (t, r)"
      by (auto dest!: first_some_Some)
    from m obtain t0 where "match_fmt fmt r0 = Some (t0, r)" by auto
    from "3.IH"(1) [OF True this] directive_rest [OF vr] True show ?thesis by auto
  next
    case False
    with "3.prems" obtain r0 where s: "s = c # r0" and m: "match_fmt (d # fmt) r0 = Some (t, r)"
      by (auto split: list.splits if_splits)
    from "3.IH"(2) [OF False m] s False show ?thesis by auto
  qed
qed

lemma strptime_no_literal:
  assumes "c \<in> set (fmt_literals fmt)" and "c \<notin> set s"
  shows "strptime s fmt = Inl ValueError"
proof (cases "match_fmt fmt s")
  case None
  then show ?thesis by (simp add: strptime_def)
next
  case (Some a)
  then obtain t r where "match_fmt fmt s = Some (t, r)" by (cases a) auto
  from match_fmt_literals [OF this] assms show ?thesis by auto
qed

lemma strptime_error: "strptime s fmt = Inl e \<Longrightarrow> e = ValueError"
  by (auto simp: strptime_def split: option.splits if_splits prod.splits)

subsection \<open>Whole days to a midnight\<close>

lemma floor_neg:
  assumes "0 \<le> S" "S < 86400" "0 \<le> U" "U < 1000000"
  shows "(- S + (- U) div 1000000) div 86400 = (if S = 0 \<and> U = 0 then 0 else - 1 :: int)"
proof -
  have u: "(- U) div 1000000 = (if U = 0 then 0 else - 1)"
    using assms(3,4) by (simp add: zdiv_zminus1_eq_if)
  show ?thesis
  proof (cases "S = 0 \<and> U = 0")
    case True
    then show ?thesis by simp
  next
    case False
    define k where "k = - S + (- U) div 1000000"
    have "- 86400 \<le> k" "k < 0" using False assms u by (auto simp: k_def split: if_splits)
    then have "k div 86400 = - 1"
      by (simp add: zdiv_zminus1_eq_if div_eq_minus1 int_div_neg_eq) 
    then show ?thesis using False by (simp add: k_def)
  qed
qed


lemma sub_days_midnight:
  assumes "valid_datetime today"
  shows "sub_days (midnight_of y m d) today =
         ymd2ord y m d - toordinal today - (if at_midnight today then 0 else 1)"
proof -
  define S where "S = second today + minute today * 60 + hour today * 3600"
  define U where "U = microsecond today"
  have S: "0 \<le> S" "S < 86400" and U: "0 \<le> U" "U < 1000000"
    using assms by (auto simp: valid_datetime_def S_def U_def)
  have z: "S = 0 \<and> U = 0 \<longleftrightarrow> at_midnight today"
    using assms unfolding valid_datetime_def at_midnight_def S_def U_def by arith
  have "sub_days (midnight_of y m d) today =
        ymd2ord y m d - toordinal today + (- S + (- U) div 1000000) div 86400"
    by (simp add: sub_days_def midnight_of_def toordinal_def S_def U_def Let_def)
  also have "\<dots> = ymd2ord y m d - toordinal today + (if S = 0 \<and> U = 0 then 0 else - 1)"
    by (simp only: floor_neg [OF S U])
  finally show ?thesis using z by simp
qed

lemma try_formats_first_parse:
  "try_formats today s fmts =
     Inr (map_option (\<lambda>t. sub_days t today) (first_parse s fmts))"
proof (induction fmts)
  case Nil
  then show ?case by simp
next
  case (Cons fmt fmts)
  show ?case
  proof (cases "strptime s fmt")
    case (Inl e)
    then have "e = ValueError" by (rule strptime_error)
    with Inl Cons show ?thesis by simp
  next
    case (Inr t)
    then show ?thesis by simp
  qed
qed

lemma days_in_month_le:
  assumes "1 \<le> m" "m \<le> 12"
  shows "days_in_month y m \<le> 31"
proof -
  from assms have "m \<in> set [1..12]" by simp
  then show ?thesis
    by (auto simp: upto_rec1 days_in_month_def DAYS_IN_MONTH_def)
qed

lemma check_date_fields_bounds:
  assumes "check_date_fields y m d"
  shows "1 \<le> y" "0 \<le> y" "y \<le> 9999" "1 \<le> m" "0 \<le> m" "m \<le> 12" "m \<le> 99" "1 \<le> d" "0 \<le> d" "d \<le> 31" "d \<le> 99"
  using assms days_in_month_le [of m y] by (auto simp: check_date_fields_def)

subsection \<open>Parsing a formatted date\<close>

lemma sep_not_digit:
  "\<not> char_in CHR ''/'' ''0123456789''" "\<not> char_in CHR ''-'' ''0123456789''"
  "\<not> char_in CHR ''.'' ''0123456789''"
  by (simp_all add: char_in_def)

lemma sep_notin_pad:
  assumes "check_date_fields y m d" and "\<not> char_in c ''0123456789''"
  shows "c \<notin> set (pad2 m)" "c \<notin> set (pad2 d)" "c \<notin> set (pad4 y)"
  using pad2_digits [of m] pad2_digits [of d] pad4_digits [of y]
    check_date_fields_bounds [OF assms(1)] assms(2)
  by (auto simp: char_in_def)

lemma strptime_ok:
  assumes "match_fmt fmt s = Some ((y, m, d), [])" and "check_date_fields y m d"
  shows "strptime s fmt = Inr (midnight_of y m d)"
  using assms by (simp add: strptime_def midnight_of_def)

lemma match_end_Y:
  assumes "check_date_fields y m d"
  shows "match_fmt ''%Y'' (pad4 y) = Some ((y, 1, 1), [])"
  using match_Y [of y "[]" "[]" "(1900, 1, 1)" "[]"] check_date_fields_bounds [OF assms]
  by (simp add: set_field_def del: match_fmt.simps add: match_fmt.simps(1))

lemma match_end_d:
  assumes "check_date_fields y m d"
  shows "match_fmt ''%d'' (pad2 d) = Some ((1900, 1, d), [])"
  using match_d [of d "[]" "[]" "(1900, 1, 1)" "[]"] check_date_fields_bounds [OF assms]
  by (simp add: set_field_def del: match_fmt.simps add: match_fmt.simps(1))

lemma roundtrip_mdy_slash:
  assumes c: "check_date_fields y m d"
  shows "strptime (strftime ''%m/%d/%Y'' (y, m, d)) ''%m/%d/%Y'' = Inr (midnight_of y m d)"
proof -
  note b = check_date_fields_bounds [OF c]
  have s: "strftime ''%m/%d/%Y'' (y, m, d) = pad2 m @ CHR ''/'' # pad2 d @ CHR ''/'' # pad4 y"
    by (simp add: field_text_def)
  have m1: "match_fmt ''/%Y'' (CHR ''/'' # pad4 y) = Some ((y, 1, 1), [])"
    using match_end_Y [OF c] by (simp del: match_fmt.simps add: match_lit)
  have m2: "match_fmt ''%d/%Y'' (pad2 d @ CHR ''/'' # pad4 y) = Some ((y, 1, d), [])"
    using match_d [OF b(8) b(10) m1] by (simp add: set_field_def del: match_fmt.simps)
  have m3: "match_fmt ''/%d/%Y'' (CHR ''/'' # pad2 d @ CHR ''/'' # pad4 y) = Some ((y, 1, d), [])"
    using m2 by (simp del: match_fmt.simps add: match_lit)
  have m4: "match_fmt ''%m/%d/%Y'' (pad2 m @ CHR ''/'' # pad2 d @ CHR ''/'' # pad4 y)
            = Some ((y, m, d), [])"
    using match_m [OF b(4) b(6) m3] by (simp add: set_field_def del: match_fmt.simps)
  show ?thesis unfolding s by (rule strptime_ok [OF m4 c])
qed

lemma roundtrip_mdy_dash:
  assumes c: "check_date_fields y m d"
  shows "strptime (strftime ''%m-%d-%Y'' (y, m, d)) ''%m-%d-%Y'' = Inr (midnight_of y m d)"
proof -
  note b = check_date_fields_bounds [OF c]
  have s: "strftime ''%m-%d-%Y'' (y, m, d) = pad2 m @ CHR ''-'' # pad2 d @ CHR ''-'' # pad4 y"
    by (simp add: field_text_def)
  have m1: "match_fmt ''-%Y'' (CHR ''-'' # pad4 y) = Some ((y, 1, 1), [])"
    using match_end_Y [OF c] by (simp del: match_fmt.simps add: match_lit)
  have m2: "match_fmt ''%d-%Y'' (pad2 d @ CHR ''-'' # pad4 y) = Some ((y, 1, d), [])"
    using match_d [OF b(8) b(10) m1] by (simp add: set_field_def del: match_fmt.simps)
  have m3: "match_fmt ''-%d-%Y'' (CHR ''-'' # pad2 d @ CHR ''-'' # pad4 y) = Some ((y, 1, d), [])"
    using m2 by (simp del: match_fmt.simps add: match_lit)
  have m4: "match_fmt ''%m-%d-%Y'' (pad2 m @ CHR ''-'' # pad2 d @ CHR ''-'' # pad4 y)
            = Some ((y, m, d), [])"
    using match_m [OF b(4) b(6) m3] by (simp add: set_field_def del: match_fmt.simps)
  show ?thesis unfolding s by (rule strptime_ok [OF m4 c])
qed

lemma roundtrip_dmy_dot:
  assumes c: "check_date_fields y m d"
  shows "strptime (strftime ''%d.%m.%Y'' (y, m, d)) ''%d.%m.%Y'' = Inr (midnight_of y m d)"
proof -
  note b = check_date_fields_bounds [OF c]
  have s: "strftime ''%d.%m.%Y'' (y, m, d) = pad2 d @ CHR ''.'' # pad2 m @ CHR ''.'' # pad4 y"
    by (simp add: field_text_def)
  have m1: "match_fmt ''.%Y'' (CHR ''.'' # pad4 y) = Some ((y, 1, 1), [])"
    using match_end_Y [OF c] by (simp del: match_fmt.simps add: match_lit)
  have m2: "match_fmt ''%m.%Y'' (pad2 m @ CHR ''.'' # pad4 y) = Some ((y, m, 1), [])"
    using match_m [OF b(4) b(6) m1] by (simp add: set_field_def del: match_fmt.simps)
  have m3: "match_fmt ''.%m.%Y'' (CHR ''.'' # pad2 m @ CHR ''.'' # pad4 y) = Some ((y, m, 1), [])"
    using m2 by (simp del: match_fmt.simps add: match_lit)
  have m4: "match_fmt ''%d.%m.%Y'' (pad2 d @ CHR ''.'' # pad2 m @ CHR ''.'' # pad4 y)
            = Some ((y, m, d), [])"
    using match_d [OF b(8) b(10) m3] by (simp add: set_field_def del: match_fmt.simps)
  show ?thesis unfolding s by (rule strptime_ok [OF m4 c])
qed

lemma roundtrip_iso:
  assumes c: "check_date_fields y m d"
  shows "strptime (strftime ''%Y-%m-%d'' (y, m, d)) ''%Y-%m-%d'' = Inr (midnight_of y m d)"
proof -
  note b = check_date_fields_bounds [OF c]
  have s: "strftime ''%Y-%m-%d'' (y, m, d) = pad4 y @ CHR ''-'' # pad2 m @ CHR ''-'' # pad2 d"
    by (simp add: field_text_def)
  have m1: "match_fmt ''-%d'' (CHR ''-'' # pad2 d) = Some ((1900, 1, d), [])"
    using match_end_d [OF c] by (simp del: match_fmt.simps add: match_lit)
  have m2: "match_fmt ''%m-%d'' (pad2 m @ CHR ''-'' # pad2 d) = Some ((1900, m, d), [])"
    using match_m [OF b(4) b(6) m1] by (simp add: set_field_def del: match_fmt.simps)
  have m3: "match_fmt ''-%m-%d'' (CHR ''-'' # pad2 m @ CHR ''-'' # pad2 d) = Some ((1900, m, d), [])"
    using m2 by (simp del: match_fmt.simps add: match_lit)
  have m4: "match_fmt ''%Y-%m-%d'' (pad4 y @ CHR ''-'' # pad2 m @ CHR ''-'' # pad2 d)
            = Some ((y, m, d), [])"
    using match_Y [OF b(2) b(3) m3] by (simp add: set_field_def del: match_fmt.simps)
  show ?thesis unfolding s by (rule strptime_ok [OF m4 c])
qed

lemma dash_text_not_iso:
  "strptime (pad2 m @ CHR ''-'' # pad2 d @ CHR ''-'' # pad4 y) ''%Y-%m-%d'' = Inl ValueError"
proof -
  have "re_Y (pad2 m @ CHR ''-'' # pad2 d @ CHR ''-'' # pad4 y) = []"
    by (simp add: re_Y_def pad2_def sep_not_digit)
  then have "match_fmt ''%Y-%m-%d'' (pad2 m @ CHR ''-'' # pad2 d @ CHR ''-'' # pad4 y) = None"
    by (simp add: directive_def)
  then show ?thesis by (simp add: strptime_def)
qed

lemma first_parse_strftime:
  assumes c: "check_date_fields y m d" and f: "fmt \<in> set date_formats"
  shows "first_parse (strftime fmt (y, m, d)) date_formats = Some (midnight_of y m d)"
proof -
  note n = sep_notin_pad [OF c]
  have s1: "strftime ''%m/%d/%Y'' (y, m, d) = pad2 m @ CHR ''/'' # pad2 d @ CHR ''/'' # pad4 y"
    and s2: "strftime ''%Y-%m-%d'' (y, m, d) = pad4 y @ CHR ''-'' # pad2 m @ CHR ''-'' # pad2 d"
    and s3: "strftime ''%d.%m.%Y'' (y, m, d) = pad2 d @ CHR ''.'' # pad2 m @ CHR ''.'' # pad4 y"
    and s4: "strftime ''%m-%d-%Y'' (y, m, d) = pad2 m @ CHR ''-'' # pad2 d @ CHR ''-'' # pad4 y"
    by (simp_all add: field_text_def)
  have slash2: "strptime (strftime ''%Y-%m-%d'' (y, m, d)) ''%m/%d/%Y'' = Inl ValueError"
    unfolding s2 using n [OF sep_not_digit(1)]
    by (intro strptime_no_literal [of "CHR ''/''"]) simp_all
  have slash3: "strptime (strftime ''%d.%m.%Y'' (y, m, d)) ''%m/%d/%Y'' = Inl ValueError"
    unfolding s3 using n [OF sep_not_digit(1)]
    by (intro strptime_no_literal [of "CHR ''/''"]) simp_all
  have slash4: "strptime (strftime ''%m-%d-%Y'' (y, m, d)) ''%m/%d/%Y'' = Inl ValueError"
    unfolding s4 using n [OF sep_not_digit(1)]
    by (intro strptime_no_literal [of "CHR ''/''"]) simp_all
  have dash3: "strptime (strftime ''%d.%m.%Y'' (y, m, d)) ''%Y-%m-%d'' = Inl ValueError"
    unfolding s3 using n [OF sep_not_digit(2)]
    by (intro strptime_no_literal [of "CHR ''-''"]) simp_all
  have iso4: "strptime (strftime ''%m-%d-%Y'' (y, m, d)) ''%Y-%m-%d'' = Inl ValueError"
    unfolding s4 by (rule dash_text_not_iso)
  have dot4: "strptime (strftime ''%m-%d-%Y'' (y, m, d)) ''%d.%m.%Y'' = Inl ValueError"
    unfolding s4 using n [OF sep_not_digit(3)]
    by (intro strptime_no_literal [of "CHR ''.''"]) simp_all
  from f consider "fmt = ''%m/%d/%Y''" | "fmt = ''%Y-%m-%d''" | "fmt = ''%d.%m.%Y''"
    | "fmt = ''%m-%d-%Y''"
    by (auto simp: date_formats_def)
  then show ?thesis
  proof cases
    case 1
    then show ?thesis using roundtrip_mdy_slash [OF c] by (simp add: date_formats_def)
  next
    case 2
    then show ?thesis using roundtrip_iso [OF c] slash2 by (simp add: date_formats_def)
  next
    case 3
    then show ?thesis using roundtrip_dmy_dot [OF c] slash3 dash3 by (simp add: date_formats_def)
  next
    case 4
    then show ?thesis using roundtrip_mdy_dash [OF c] slash4 iso4 dot4
      by (simp add: date_formats_def)
  qed
qed

lemma calculate_days_remaining_first_parse:
  "calculate_days_remaining today (Some s) =
     Inr (if s = [] then None
          else map_option (\<lambda>t. sub_days t today) (first_parse s date_formats))"
  by (simp add: calculate_days_remaining_def try_formats_first_parse)

subsection \<open>Days remaining\<close>

lemmas date_eval =
  strptime_def directive_def re_m_def re_d_def re_Y_def set_field_def digit_val_def char_in_def
  check_date_fields_def days_in_month_def DAYS_IN_MONTH_def is_leap_def sub_days_def
  toordinal_def ymd2ord_def days_before_year_def days_before_month_def DAYS_BEFORE_MONTH_def
  calculate_days_remaining_def date_formats_def valid_datetime_def at_midnight_def
  midnight_of_def field_text_def pad2_def pad4_def digit_char_def

lemma first_parse_empty: "first_parse [] date_formats = None"
  by (simp add: date_formats_def strptime_def directive_def re_m_def re_d_def re_Y_def)

lemma calculate_days_remaining_parse:
  "calculate_days_remaining today (Some s) =
     Inr (map_option (\<lambda>t. sub_days t today) (first_parse s date_formats))"
  by (simp add: calculate_days_remaining_first_parse first_parse_empty)

lemma first_parse_none:
  "(\<forall>fmt \<in> set fmts. \<exists>e. strptime s fmt = Inl e) \<Longrightarrow> first_parse s fmts = None"
  by (induction fmts) auto

text \<open>
  Claim C2. Parsing round-trips each of the four formats: for an instant \<open>today\<close> and a
  valid date \<open>(y, m, d)\<close> that lies \<open>N\<close> days after today's date, formatting the date
  under any of the four formats and passing the text to \<^verbatim>\<open>calculate_days_remaining\<close>
  returns \<open>N\<close> up to the instant of evaluation: exactly \<open>N\<close> when read at midnight,
  and \<open>N - 1\<close> at every later instant of the day, since the difference from the
  midnight of the target date to the instant is floored to whole days.
\<close>

theorem days_remaining_roundtrip:
  assumes "valid_datetime today" and "check_date_fields y m d" and "fmt \<in> set date_formats"
    and "ymd2ord y m d = toordinal today + N"
  shows "calculate_days_remaining today (Some (strftime fmt (y, m, d))) =
           Inr (Some (if at_midnight today then N else N - 1))"
  using assms(4)
  by (simp add: calculate_days_remaining_parse first_parse_strftime [OF assms(2,3)]
        sub_days_midnight [OF assms(1)])

theorem days_remaining_roundtrip_witness:
  "valid_datetime noon_2024_01_15 \<and> check_date_fields 2024 2 14
   \<and> ''%d.%m.%Y'' \<in> set date_formats
   \<and> ymd2ord 2024 2 14 = toordinal noon_2024_01_15 + 30
   \<and> calculate_days_remaining noon_2024_01_15 (Some (strftime ''%d.%m.%Y'' (2024, 2, 14))) =
        Inr (Some (if at_midnight noon_2024_01_15 then 30 else 30 - 1))
   \<and> strftime ''%d.%m.%Y'' (2024, 2, 14) = ''14.02.2024''
   \<and> \<not> at_midnight noon_2024_01_15"
proof -
  have v: "valid_datetime noon_2024_01_15" by (simp add: noon_2024_01_15_def date_eval)
  have c: "check_date_fields 2024 2 14" by (simp add: date_eval)
  have f: "''%d.%m.%Y'' \<in> set date_formats" by (simp add: date_formats_def)
  have n: "ymd2ord 2024 2 14 = toordinal noon_2024_01_15 + 30"
    by (simp add: noon_2024_01_15_def date_eval)
  have s: "strftime ''%d.%m.%Y'' (2024, 2, 14) = ''14.02.2024''" by (simp add: date_eval)
  have a: "\<not> at_midnight noon_2024_01_15" by (simp add: noon_2024_01_15_def date_eval)
  from v c f n s a days_remaining_roundtrip [OF v c f n] show ?thesis by blast
qed

text \<open>
  Claim C8. \<^verbatim>\<open>calculate_days_remaining\<close> never raises: it returns for every input,
  it returns \<^verbatim>\<open>None\<close> for a null input, for the empty text and for a text that
  \<^verbatim>\<open>strptime\<close> rejects under each of the four formats, and that \<^verbatim>\<open>None\<close> is
  classified "No Data".
\<close>

theorem calculate_days_remaining_never_raises:
  "(\<exists>r. calculate_days_remaining today v = Inr r)
   \<and> calculate_days_remaining today None = Inr None
   \<and> calculate_days_remaining today (Some []) = Inr None
   \<and> ((\<forall>fmt \<in> set date_formats. \<exists>e. strptime s fmt = Inl e) \<longrightarrow>
        calculate_days_remaining today (Some s) = Inr None)
   \<and> (\<forall>r. calculate_days_remaining today v = Inr r \<and> r = None \<longrightarrow>
        get_alert_status r = ''No Data'')"
proof -
  have 1: "\<exists>r. calculate_days_remaining today v = Inr r"
    by (auto simp: calculate_days_remaining_def split: option.splits sum.splits)
  have 2: "calculate_days_remaining today None = Inr None"
    by (simp add: calculate_days_remaining_def)
  have 3: "calculate_days_remaining today (Some []) = Inr None"
    by (simp add: calculate_days_remaining_def)
  have 4: "(\<forall>fmt \<in> set date_formats. \<exists>e. strptime s fmt = Inl e) \<longrightarrow>
        calculate_days_remaining today (Some s) = Inr None"
    by (simp add: calculate_days_remaining_parse first_parse_none)
  have 5: "\<forall>r. calculate_days_remaining today v = Inr r \<and> r = None \<longrightarrow>
        get_alert_status r = ''No Data''"
    by (simp add: get_alert_status_def)
  from 1 2 3 4 5 show ?thesis by blast
qed

theorem calculate_days_remaining_never_raises_witness:
  "strptime ''soon'' ''%m/%d/%Y'' = Inl ValueError
   \<and> strptime ''soon'' ''%Y-%m-%d'' = Inl ValueError
   \<and> strptime ''soon'' ''%d.%m.%Y'' = Inl ValueError
   \<and> strptime ''soon'' ''%m-%d-%Y'' = Inl ValueError
   \<and> calculate_days_remaining noon_2024_01_15 (Some ''soon'') = Inr None
   \<and> calculate_days_remaining noon_2024_01_15 (Some ''02/30/2024'') = Inr None
   \<and> get_alert_status None = ''No Data''"
proof -
  have e: "strptime ''soon'' ''%m/%d/%Y'' = Inl ValueError"
    "strptime ''soon'' ''%Y-%m-%d'' = Inl ValueError"
    "strptime ''soon'' ''%d.%m.%Y'' = Inl ValueError"
    "strptime ''soon'' ''%m-%d-%Y'' = Inl ValueError"
    by (simp_all add: date_eval)
  then have b: "\<forall>fmt \<in> set date_formats. \<exists>e. strptime ''soon'' fmt = Inl e"
    by (simp add: date_formats_def)
  have b2: "\<forall>fmt \<in> set date_formats. \<exists>e. strptime ''02/30/2024'' fmt = Inl e"
    by (simp add: date_eval)
  from calculate_days_remaining_never_raises [of noon_2024_01_15 "Some ''soon''" "''soon''"] b
  have r: "calculate_days_remaining noon_2024_01_15 (Some ''soon'') = Inr None" by blast
  from calculate_days_remaining_never_raises [of noon_2024_01_15 None "''02/30/2024''"] b2
  have r2: "calculate_days_remaining noon_2024_01_15 (Some ''02/30/2024'') = Inr None"
    and a: "get_alert_status None = ''No Data''" by blast+
  from e r r2 a show ?thesis by blast
qed

text \<open>
  Claim C10. At every instant strictly after midnight, a text that denotes the current
  calendar date under the formats gives a day offset of \<open>- 1\<close>, not \<open>0\<close>, and the
  offset is classified "OVERDUE": the parsed date is at midnight and the instant read is
  later in the day.
\<close>

theorem due_today_is_overdue:
  assumes "valid_datetime today" and "\<not> at_midnight today"
    and "first_parse s date_formats = Some (midnight_of (year today) (month today) (day today))"
  shows "calculate_days_remaining today (Some s) = Inr (Some (- 1))
         \<and> get_alert_status (Some (- 1)) = ''OVERDUE''"
  using assms(2,3)
  by (simp add: calculate_days_remaining_parse sub_days_midnight [OF assms(1)] toordinal_def
        get_alert_status_def)

theorem due_today_is_overdue_witness:
  "valid_datetime noon_2024_01_15 \<and> \<not> at_midnight noon_2024_01_15
   \<and> first_parse ''1/15/2024'' date_formats =
       Some (midnight_of (year noon_2024_01_15) (month noon_2024_01_15) (day noon_2024_01_15))
   \<and> first_parse ''2024-01-15'' date_formats =
       Some (midnight_of (year noon_2024_01_15) (month noon_2024_01_15) (day noon_2024_01_15))
   \<and> calculate_days_remaining noon_2024_01_15 (Some ''1/15/2024'') = Inr (Some (- 1))
   \<and> calculate_days_remaining noon_2024_01_15 (Some ''2024-01-15'') = Inr (Some (- 1))
   \<and> get_alert_status (Some (- 1)) = ''OVERDUE''"
proof -
  have v: "valid_datetime noon_2024_01_15" by (simp add: noon_2024_01_15_def date_eval)
  have a: "\<not> at_midnight noon_2024_01_15" by (simp add: noon_2024_01_15_def date_eval)
  have p1: "first_parse ''1/15/2024'' date_formats =
       Some (midnight_of (year noon_2024_01_15) (month noon_2024_01_15) (day noon_2024_01_15))"
    by (simp add: noon_2024_01_15_def date_eval)
  have p2: "first_parse ''2024-01-15'' date_formats =
       Some (midnight_of (year noon_2024_01_15) (month noon_2024_01_15) (day noon_2024_01_15))"
    by (simp add: noon_2024_01_15_def date_eval)
  from v a p1 p2 due_today_is_overdue [OF v a p1] due_today_is_overdue [OF v a p2]
  show ?thesis by blast
qed

subsection \<open>Evaluating floating point\<close>

lemma bit_length_0: "bit_length 0 = 0"
  by (simp add: bit_length.simps)

lemma bit_length_1: "bit_length (Suc 0) = Suc 0"
  by (simp add: bit_length.simps)

lemma bit_length_numeral: "bit_length (numeral n) = Suc (bit_length (numeral n div 2))"
  by (subst bit_length.simps) simp

lemma floor_num_div: "\<lfloor>numeral a / numeral b :: rat\<rfloor> = numeral a div numeral b"
  using floor_divide_of_int_eq [of "numeral a" "numeral b", where ?'a = rat] by simp

lemma floor_neg_num_div: "\<lfloor>- (numeral a / numeral b) :: rat\<rfloor> = (- numeral a) div numeral b"
  using floor_divide_of_int_eq [of "- numeral a" "numeral b", where ?'a = rat] by simp

lemma ceiling_num_div: "\<lceil>numeral a / numeral b :: rat\<rceil> = - ((- numeral a) div numeral b)"
  using floor_neg_num_div [of a b] by (simp add: ceiling_def)

lemmas float_eval =
  fl64_def ilog2_def pow2_def round_half_even_def Let_def bit_length_0 bit_length_1
  bit_length_numeral truediv_def py_round0_def py_int_def
  floor_num_div floor_neg_num_div ceiling_num_div

lemma meters_per_mile_value: "meters_per_mile = 7077952172180111 / 4398046511104"
  by (simp add: meters_per_mile_def float_eval)

lemma hundred_miles: "truediv 160934 meters_per_mile = 100"
  by (simp add: meters_per_mile_value float_eval)


lemma quotient_2415: "round_half_even (truediv 2415 meters_per_mile) = 2"
  by (simp add: meters_per_mile_value float_eval)

subsection \<open>The rounding error of binary64\<close>

lemma bit_length_lower: "0 < n \<Longrightarrow> 2 ^ (bit_length n - 1) \<le> n"
proof (induction n rule: bit_length.induct)
  case (1 n)
  show ?case
  proof (cases "n div 2 = 0")
    case True
    with "1.prems" have "n = 1" by (cases n) auto
    then show ?thesis by (simp add: bit_length.simps)
  next
    case False
    then have p: "0 < n div 2" by simp
    from "1.prems" have n0: "n \<noteq> 0" by simp
    have b: "bit_length n = Suc (bit_length (n div 2))"
      using n0 by (subst bit_length.simps) simp
    have bp: "0 < bit_length (n div 2)"
      using False by (subst bit_length.simps) simp
    from "1.IH" [OF n0 p] have "2 ^ (bit_length (n div 2) - 1) \<le> n div 2" .
    then have "2 * 2 ^ (bit_length (n div 2) - 1) \<le> n" by simp
    moreover have "2 * 2 ^ (bit_length (n div 2) - 1) = (2::nat) ^ bit_length (n div 2)"
      using bp by (cases "bit_length (n div 2)") simp_all
    ultimately show ?thesis by (simp add: b)
  qed
qed

lemma bit_length_upper: "n < 2 ^ bit_length n"
proof (induction n rule: bit_length.induct)
  case (1 n)
  show ?case
  proof (cases "n = 0")
    case True
    then show ?thesis by (simp add: bit_length.simps)
  next
    case False
    have b: "bit_length n = Suc (bit_length (n div 2))"
      using False by (subst bit_length.simps) simp
    from "1.IH" [OF False] have "n div 2 < 2 ^ bit_length (n div 2)" .
    then have "n < 2 * 2 ^ bit_length (n div 2)" by simp
    then show ?thesis by (simp add: b)
  qed
qed

lemma pow2_pos: "0 < pow2 e"
  by (simp add: pow2_def)

lemma pow2_diff: "pow2 (e - int k) = pow2 e / 2 ^ k"
proof -
  consider "int k \<le> e" | "0 \<le> e" "e < int k" | "e < 0" by linarith
  then show ?thesis
  proof cases
    case 1
    then have "nat e = nat (e - int k) + k" by simp
    then have "(2::rat) ^ nat e = 2 ^ nat (e - int k) * 2 ^ k" by (simp only: power_add)
    with 1 show ?thesis by (simp add: pow2_def)
  next
    case 2
    then have "nat (int k - e) + nat e = k" by simp
    then have "(2::rat) ^ k = 2 ^ nat (int k - e) * 2 ^ nat e" by (metis power_add)
    with 2 show ?thesis by (simp add: pow2_def)
  next
    case 3
    then have "nat (int k - e) = nat (- e) + k" by simp
    then have "(2::rat) ^ nat (int k - e) = 2 ^ nat (- e) * 2 ^ k" by (simp only: power_add)
    with 3 show ?thesis by (simp add: pow2_def)
  qed
qed

lemma pow2_minus52: "pow2 (e - 52) = pow2 e / 2 ^ 52"
  using pow2_diff [of e 52] by simp

lemma ilog2_le:
  assumes "0 < x"
  shows "pow2 (ilog2 x) \<le> x"
proof (cases "1 \<le> x")
  case True
  define n where "n = nat \<lfloor>x\<rfloor>"
  have fl: "1 \<le> \<lfloor>x\<rfloor>" using True by (simp add: le_floor_iff)
  then have n: "0 < n" by (simp add: n_def)
  have bp: "0 < bit_length n" using n by (subst bit_length.simps) simp
  have "(2::nat) ^ (bit_length n - 1) \<le> n" by (rule bit_length_lower [OF n])
  then have "(of_nat ((2::nat) ^ (bit_length n - 1)) :: rat) \<le> of_nat n" by (simp only: of_nat_le_iff)
  then have "(2::rat) ^ (bit_length n - 1) \<le> of_nat n" by simp
  also have "(of_nat n :: rat) = of_int \<lfloor>x\<rfloor>" using fl by (simp add: n_def)
  also have "\<dots> \<le> x" by simp
  finally have "(2::rat) ^ (bit_length n - 1) \<le> x" .
  moreover have "ilog2 x = int (bit_length n) - 1" using True by (simp add: ilog2_def n_def)
  moreover have "nat (int (bit_length n) - 1) = bit_length n - 1" by simp
  ultimately show ?thesis using bp by (simp add: pow2_def)
next
  case False
  define k where "k = nat (\<lceil>1 / x\<rceil> - 1)"
  from False assms have inv: "1 < 1 / x" by (simp add: field_simps)
  then have c: "2 \<le> \<lceil>1 / x\<rceil>" by (simp add: le_ceiling_iff)
  have "int k < 2 ^ bit_length k" using bit_length_upper [of k] by (metis of_nat_less_iff of_nat_numeral of_nat_power)
  moreover have "int k = \<lceil>1 / x\<rceil> - 1" using c assms by (simp add: k_def)
  ultimately have "\<lceil>1 / x\<rceil> \<le> 2 ^ bit_length k" by linarith
  then have "1 / x \<le> of_int (2 ^ bit_length k)" by (simp only: ceiling_le_iff)
  then have le: "1 / x \<le> 2 ^ bit_length k" by simp
  have "1 / (2::rat) ^ bit_length k \<le> x"
  proof -
    from le assms have "1 \<le> 2 ^ bit_length k * x" by (simp add: field_simps)
    then show ?thesis by (simp add: field_simps)
  qed
  moreover have "ilog2 x = - int (bit_length k)" using False by (simp add: ilog2_def k_def)
  ultimately show ?thesis by (auto simp: pow2_def)
qed

lemma round_half_even_error: "\<bar>of_int (round_half_even t) - t\<bar> \<le> 1 / 2"
proof -
  have "of_int \<lfloor>t\<rfloor> \<le> t" "t < of_int \<lfloor>t\<rfloor> + 1" by linarith+
  then show ?thesis by (auto simp: round_half_even_def Let_def)
qed

lemma round_half_even_unique:
  assumes "of_int k - 1 / 2 < y" and "y < of_int k + 1 / 2"
  shows "round_half_even y = k"
proof -
  have f: "\<lfloor>y\<rfloor> = k - 1 \<or> \<lfloor>y\<rfloor> = k"
  proof -
    have "of_int (k - 1) \<le> y" using assms(1) by simp
    then have "k - 1 \<le> \<lfloor>y\<rfloor>" by (simp only: le_floor_iff)
    moreover have "y < of_int (k + 1)" using assms(2) by simp
    then have "\<lfloor>y\<rfloor> < k + 1" by (simp only: floor_less_iff)
    ultimately show ?thesis by linarith
  qed
  then show ?thesis
  proof
    assume a: "\<lfloor>y\<rfloor> = k - 1"
    then have "1 / 2 < y - of_int \<lfloor>y\<rfloor>" using assms(1) by simp
    then show ?thesis using a by (simp add: round_half_even_def Let_def)
  next
    assume a: "\<lfloor>y\<rfloor> = k"
    then have "y - of_int \<lfloor>y\<rfloor> < 1 / 2" using assms(2) by simp
    then show ?thesis using a by (simp add: round_half_even_def Let_def)
  qed
qed

lemma round_half_even_of_int [simp]: "round_half_even (of_int j) = j"
  by (simp add: round_half_even_def)

lemma fl64_error:
  assumes "z \<noteq> 0"
  shows "\<bar>fl64 z - z\<bar> \<le> \<bar>z\<bar> / 2 ^ 53"
proof -
  define q where "q = pow2 (ilog2 \<bar>z\<bar> - 52)"
  have qpos: "0 < q" by (simp add: q_def pow2_pos)
  have "q = pow2 (ilog2 \<bar>z\<bar>) / 2 ^ 52" unfolding q_def by (rule pow2_minus52)
  also have "\<dots> \<le> \<bar>z\<bar> / 2 ^ 52"
    using ilog2_le [of "\<bar>z\<bar>"] assms by (simp add: divide_right_mono)
  finally have qle: "q \<le> \<bar>z\<bar> / 2 ^ 52" .
  have "fl64 z - z = (of_int (round_half_even (z / q)) - z / q) * q"
    using assms qpos by (simp add: fl64_def q_def [symmetric] Let_def field_simps)
  then have "\<bar>fl64 z - z\<bar> = \<bar>of_int (round_half_even (z / q)) - z / q\<bar> * q"
    using qpos by (simp add: abs_mult)
  also have "\<dots> \<le> 1 / 2 * q"
    using round_half_even_error [of "z / q"] qpos by (simp add: mult_right_mono)
  also have "\<dots> \<le> 1 / 2 * (\<bar>z\<bar> / 2 ^ 52)" using qle by simp
  also have "\<dots> = \<bar>z\<bar> / 2 ^ 53" by simp
  finally show ?thesis .
qed

lemma fl64_of_int:
  assumes "\<bar>m\<bar> < 2 ^ 53"
  shows "fl64 (of_int m) = of_int m"
proof (cases "m = 0")
  case True
  then show ?thesis by (simp add: fl64_def)
next
  case False
  define n where "n = nat \<bar>m\<bar>"
  have n: "0 < n" using False by (simp add: n_def)
  have nlt: "n < 2 ^ 53" using assms by (simp add: n_def nat_less_iff)
  have "(2::nat) ^ (bit_length n - 1) \<le> n" by (rule bit_length_lower [OF n])
  with nlt have "(2::nat) ^ (bit_length n - 1) < 2 ^ 53" by linarith
  then have "bit_length n - 1 < 53" by (simp only: power_strict_increasing_iff)
  then have bl: "bit_length n \<le> 53" by simp
  define j where "j = 53 - bit_length n"
  have "1 \<le> \<bar>m\<bar>" using False by simp
  then have "(of_int 1 :: rat) \<le> of_int \<bar>m\<bar>" by (simp only: of_int_le_iff)
  then have a1: "(1::rat) \<le> \<bar>of_int m\<bar>" by simp
  have fl: "nat \<lfloor>\<bar>of_int m :: rat\<bar>\<rfloor> = n" by (simp add: n_def flip: of_int_abs)
  have e: "ilog2 \<bar>of_int m\<bar> - 52 = - int j"
    using a1 bl by (simp add: ilog2_def fl j_def)
  have q: "pow2 (- int j) = 1 / 2 ^ j" by (simp add: pow2_def)
  have "(of_int m :: rat) / (1 / 2 ^ j) = of_int (m * 2 ^ j)" by simp
  then have "round_half_even ((of_int m :: rat) / (1 / 2 ^ j)) = m * 2 ^ j"
    by (simp only: round_half_even_of_int)
  then show ?thesis
    using False by (simp add: fl64_def Let_def e q)
qed

lemma float_of_int_exact:
  assumes "\<bar>m\<bar> < 2 ^ 53"
  shows "float_of_int m = Inr (of_int m)"
proof -
  have "(of_int \<bar>m\<bar> :: rat) < of_int (2 ^ 53)" using assms by (simp only: of_int_less_iff)
  then have "\<bar>of_int m :: rat\<bar> < 2 ^ 53" by simp
  also have "(2::rat) ^ 53 \<le> 2 ^ 1024" by (rule power_increasing) simp_all
  finally have "\<not> (2::rat) ^ 1024 \<le> \<bar>of_int m\<bar>" by simp
  then show ?thesis by (simp add: float_of_int_def Let_def fl64_of_int [OF assms])
qed

text \<open>An integer of 1025 binary digits is beyond the binary64 range.\<close>

lemma bit_length_power2: "bit_length (2 ^ n) = Suc n"
proof (induction n)
  case 0
  then show ?case by (simp add: bit_length_1)
next
  case (Suc n)
  have "bit_length (2 ^ Suc n) = Suc (bit_length (2 ^ Suc n div 2))"
    by (subst bit_length.simps) simp
  with Suc show ?case by simp
qed

lemma fl64_power2: "fl64 (2 ^ n) = 2 ^ n"
proof -
  have "ilog2 ((2::rat) ^ n) = int n"
    by (simp add: ilog2_def nat_power_eq bit_length_power2)
  then have q: "pow2 (ilog2 ((2::rat) ^ n) - 52) = 2 ^ n / 2 ^ 52"
    using pow2_minus52 [of "int n"] by (simp add: pow2_def)
  have "round_half_even (of_int (2 ^ 52)) = 2 ^ 52" by (simp only: round_half_even_of_int)
  then show ?thesis by (simp add: fl64_def Let_def q)
qed

lemma float_of_int_overflow: "float_of_int (2 ^ 1024) = Inl OverflowError"
proof -
  have "fl64 (of_int (2 ^ 1024)) = 2 ^ 1024" using fl64_power2 [of 1024] by simp
  then show ?thesis by (simp add: float_of_int_def Let_def)
qed

subsection \<open>Mileage in exact arithmetic\<close>

lemma nearest_gap:
  fixes m :: int
  defines "k \<equiv> (100 * m + 80467) div 160934"
  shows "\<bar>of_int m * 50 / 80467 - (of_int k :: rat)\<bar> \<le> 80466 / 160934"
proof -
  define N where "N = 100 * m + 80467"
  define r where "r = N mod 160934"
  have Nk: "N = 160934 * k + r" by (simp add: k_def r_def N_def)
  have "r mod 2 = N mod 2" unfolding r_def by (rule mod_mod_cancel) simp
  also have "N mod 2 = 1" unfolding N_def by presburger
  finally have odd: "r mod 2 = 1" .
  have "0 \<le> r" "r < 160934" by (simp_all add: r_def)
  with odd have r: "1 \<le> r" "r \<le> 160933" by presburger+
  have "100 * m = 160934 * k + r - 80467" using Nk by (simp add: N_def)
  then have "(of_int (100 * m) :: rat) = of_int (160934 * k + r - 80467)" by (simp only:)
  then have "(of_int m :: rat) * 100 = 160934 * of_int k + of_int r - 80467" by simp
  then have t: "(of_int m :: rat) * 50 / 80467 - of_int k = (of_int r - 80467) / 160934"
    by (simp add: field_simps)
  have "(- 80466 :: rat) \<le> of_int r - 80467" "(of_int r :: rat) - 80467 \<le> 80466"
    using r by simp_all
  then have "\<bar>(of_int r :: rat) - 80467\<bar> \<le> 80466" by (simp add: abs_le_iff)
  then have "\<bar>((of_int r :: rat) - 80467) / 160934\<bar> \<le> 80466 / 160934"
    by (simp add: abs_divide)
  then show ?thesis by (simp only: t)
qed

lemma quotient_close:
  fixes m :: int
  assumes "\<bar>m\<bar> \<le> 10 ^ 13"
  shows "\<bar>fl64 (of_int m / meters_per_mile) - of_int m * 50 / 80467\<bar> < 1 / 160934"
proof -
  define a :: rat where "a = \<bar>of_int m\<bar>"
  define L :: rat where "L = 4398046511104 / 7077952172180111"
  define K :: rat where "K = 4398046511104 / 7077952172180111 - 50 / 80467"
  define t :: rat where "t = of_int m * 50 / 80467"
  have a: "0 \<le> a" "a \<le> 10 ^ 13"
    using assms by (simp_all add: a_def flip: of_int_abs)
  have Lpos: "0 \<le> L" by (simp add: L_def)
  define z where "z = (of_int m :: rat) / meters_per_mile"
  have zL: "z = of_int m * L" by (simp add: z_def meters_per_mile_value L_def)
  have zabs: "\<bar>z\<bar> = a * L" unfolding zL a_def using Lpos by (simp add: abs_mult)
  have e1: "\<bar>fl64 z - z\<bar> \<le> \<bar>z\<bar> / 2 ^ 53"
  proof (cases "z = 0")
    case True
    then show ?thesis by (simp add: fl64_def)
  next
    case False
    then show ?thesis by (rule fl64_error)
  qed
  have eq: "z - t = of_int m * K" by (simp add: zL t_def L_def K_def algebra_simps)
  have e2: "\<bar>z - t\<bar> = a * \<bar>K\<bar>" unfolding eq a_def by (rule abs_mult)
  have "\<bar>fl64 z - t\<bar> \<le> \<bar>fl64 z - z\<bar> + \<bar>z - t\<bar>" by linarith
  also have "\<dots> \<le> a * L / 2 ^ 53 + a * \<bar>K\<bar>" using e1 e2 zabs by simp
  also have "\<dots> = a * (L / 2 ^ 53 + \<bar>K\<bar>)" by (simp add: algebra_simps)
  also have "\<dots> \<le> 10 ^ 13 * (L / 2 ^ 53 + \<bar>K\<bar>)"
    by (rule mult_right_mono [OF a(2)]) (simp add: Lpos)
  also have "\<dots> < 1 / 160934" by (simp add: L_def K_def)
  finally show ?thesis by (simp add: z_def t_def)
qed

lemma miles_exact:
  fixes m :: int
  assumes "\<bar>m\<bar> \<le> 10 ^ 13"
  shows "round_half_even (fl64 (of_int m / meters_per_mile)) = (100 * m + 80467) div 160934"
proof -
  define k where "k = (100 * m + 80467) div 160934"
  define y where "y = fl64 (of_int m / meters_per_mile)"
  have g: "\<bar>of_int m * 50 / 80467 - (of_int k :: rat)\<bar> \<le> 80466 / 160934"
    unfolding k_def by (rule nearest_gap)
  have c: "\<bar>y - of_int m * 50 / 80467\<bar> < 1 / 160934"
    unfolding y_def by (rule quotient_close [OF assms])
  have "\<bar>y - of_int k\<bar> \<le> \<bar>y - of_int m * 50 / 80467\<bar> + \<bar>of_int m * 50 / 80467 - (of_int k :: rat)\<bar>"
    by linarith
  also have "\<dots> < 1 / 160934 + 80466 / 160934" using g c by linarith
  also have "\<dots> = 1 / 2" by simp
  finally have "\<bar>y - of_int k\<bar> < 1 / 2" .
  then have "of_int k - 1 / 2 < y" "y < of_int k + 1 / 2" by linarith+
  then have "round_half_even y = k" by (rule round_half_even_unique)
  then show ?thesis by (simp add: y_def k_def)
qed

lemma round_quotient:
  "round (of_int m / (160934 / 100) :: rat) = (100 * m + 80467) div 160934"
proof -
  have "(of_int m / (160934 / 100) :: rat) + 1 / 2 = of_int (100 * m + 80467) / of_int 160934"
    by (simp add: field_simps)
  then have "round (of_int m / (160934 / 100) :: rat)
      = \<lfloor>of_int (100 * m + 80467) / of_int 160934 :: rat\<rfloor>"
    by (simp only: round_def)
  also have "\<dots> = (100 * m + 80467) div 160934" by (rule floor_divide_of_int_eq)
  finally show ?thesis .
qed

text \<open>
  The mileage of the specification is the one integer nearest to the exact quotient.
\<close>

lemma spec_miles_reading:
  assumes "meters data = Some m"
  shows "spec_miles data = (100 * m + 80467) div 160934"
  unfolding spec_miles_def assms by (simp only: option.case round_quotient)

lemma spec_miles_nearest:
  assumes "meters data = Some m"
  shows "\<bar>of_int m / (160934 / 100) - (of_int (spec_miles data) :: rat)\<bar> < 1 / 2"
proof -
  define k where "k = (100 * m + 80467) div 160934"
  have g: "\<bar>of_int m * 50 / 80467 - (of_int k :: rat)\<bar> \<le> 80466 / 160934"
    unfolding k_def by (rule nearest_gap)
  have s: "spec_miles data = k" unfolding k_def by (rule spec_miles_reading [OF assms])
  have q: "(of_int m / (160934 / 100) :: rat) = of_int m * 50 / 80467" by simp
  have "(80466 / 160934 :: rat) < 1 / 2" by simp
  with g show ?thesis unfolding s q by linarith
qed

lemma round_half_even_rounds_to: "rounds_to x (round_half_even x)"
proof -
  have "of_int \<lfloor>x\<rfloor> \<le> x" "x < of_int \<lfloor>x\<rfloor> + 1" by linarith+
  then show ?thesis by (auto simp: rounds_to_def round_half_even_def Let_def)
qed

lemma py_int_of_int: "py_int (of_int k) = k"
  by (simp add: py_int_def)

lemma miles_of_in_range:
  assumes "\<bar>m\<bar> \<le> 10 ^ 13"
  shows "round_half_even (float_quotient m) = round (of_int m / (160934 / 100) :: rat)"
proof -
  have "\<bar>m\<bar> < 2 ^ 53" using assms by simp
  then have "fl64 (of_int m) = of_int m" by (rule fl64_of_int)
  then show ?thesis by (simp only: float_quotient_def miles_exact [OF assms] round_quotient)
qed

text \<open>
  What \<^verbatim>\<open>int(round(value / 1609.34, 0))\<close> gives whenever the mileage line raises
  nothing.
\<close>

lemma miles_of_mileage:
  assumes "miles_of data = Inr x"
  shows "mileage data (py_int x)"
proof (cases "meters data")
  case None
  with assms have "x = 0"
    by (auto simp: miles_of_def meters_def split: json_key.splits option.splits)
  with None show ?thesis
    by (simp add: mileage_def rounded_quotient_def in_range_def spec_miles_def py_int_def)
next
  case (Some m)
  then obtain r where data: "data = JsonValue r" and r: "r_value r = Some m"
    by (auto simp: meters_def split: json_key.splits)
  have x: "py_int x = round_half_even (float_quotient m)"
  proof (cases "m = 0")
    case True
    with assms data r have "x = 0" by (simp add: miles_of_def)
    with True show ?thesis
      by (simp add: py_int_def float_quotient_def fl64_def round_half_even_def)
  next
    case False
    with assms data r obtain f where f: "float_of_int m = Inr f"
      and xf: "x = py_round0 (truediv f meters_per_mile)"
      by (auto simp: miles_of_def split: sum.splits)
    from f have "f = fl64 (of_int m)"
      by (auto simp: float_of_int_def Let_def split: if_splits)
    with xf show ?thesis
      by (simp add: py_round0_def truediv_def float_quotient_def py_int_of_int)
  qed
  have a: "rounded_quotient data (py_int x)"
    by (simp add: rounded_quotient_def Some x round_half_even_rounds_to)
  have b: "py_int x = spec_miles data" if "in_range data"
  proof -
    from that have "\<bar>m\<bar> \<le> 10 ^ 13" by (simp add: in_range_def Some)
    then have "round_half_even (float_quotient m) = round (of_int m / (160934 / 100) :: rat)"
      by (rule miles_of_in_range)
    then show ?thesis
      unfolding x spec_miles_def Some by (simp only: option.case)
  qed
  from a b show ?thesis by (auto simp: mileage_def)
qed

lemma miles_of_ok:
  assumes "reading_ok data"
  shows "\<exists>x. miles_of data = Inr x"
proof (cases "meters data")
  case None
  with assms show ?thesis
    by (auto simp: miles_of_def meters_def reading_ok_def split: json_key.splits option.splits)
next
  case (Some m)
  with assms have "\<bar>m\<bar> < 2 ^ 53" by (simp add: reading_ok_def)
  then have "float_of_int m = Inr (of_int m)" by (rule float_of_int_exact)
  with Some show ?thesis
    by (auto simp: miles_of_def meters_def split: json_key.splits option.splits)
qed


lemma miles_of_2415: "miles_of (reading_of 2415) = Inr 2"
proof -
  have "float_of_int 2415 = Inr (of_int 2415)" by (rule float_of_int_exact) simp
  then show ?thesis by (simp add: miles_of_def reading_of_def py_round0_def quotient_2415)
qed


subsection \<open>The records of the output\<close>

lemma match_loop_no_rows: "rows df = [] \<Longrightarrow> match_loop na_repr p key df cols = None"
  by (induction cols) (simp_all add: getitem_col_def)

lemma find_excel_match_empty: "df_empty df \<Longrightarrow> find_excel_match na_repr name vin df = None"
  by (auto simp: df_empty_def find_excel_match_def match_loop_no_rows)

lemma external_id_vin:
  "external_id ext_vin (externalIds v) = Inr vin \<Longrightarrow> vin = vin_of v"
  by (auto simp: external_id_def vin_of_def split: json_key.splits)

lemma process_vehicle_None:
  assumes "process_vehicle na_repr now v df = Inr None"
  shows "\<not> matched na_repr df v"
proof -
  from assms obtain vin where vin: "external_id ext_vin (externalIds v) = Inr vin"
    and m: "find_excel_match na_repr (get_default (v_name v) []) vin df = None"
    by (auto simp: process_vehicle_def Let_def split: option.splits sum.splits)
  from external_id_vin [OF vin] m show ?thesis by (simp add: matched_def)
qed

lemma process_vehicle_Some:
  assumes "process_vehicle na_repr now v df = Inr (Some info)"
  shows "matched na_repr df v"
    and "Vehicle_Name info = get_default (v_name v) []"
    and "mileage (obdOdometerMeters v) (OBD_Odometer_Miles info)"
    and "mileage (gpsDistanceMeters v) (GPS_Distance_Miles info)"
proof -
  from assms obtain vin obd gps l where vin: "external_id ext_vin (externalIds v) = Inr vin"
    and obd: "miles_of (obdOdometerMeters v) = Inr obd"
    and gps: "miles_of (gpsDistanceMeters v) = Inr gps"
    and m: "find_excel_match na_repr (get_default (v_name v) []) vin df = Some l"
    and name: "Vehicle_Name info = get_default (v_name v) []"
    and o: "OBD_Odometer_Miles info = py_int obd"
    and g: "GPS_Distance_Miles info = py_int gps"
    by (auto simp: process_vehicle_def Let_def split: option.splits sum.splits)
  from external_id_vin [OF vin] m show "matched na_repr df v" by (simp add: matched_def)
  from name show "Vehicle_Name info = get_default (v_name v) []" .
  from miles_of_mileage [OF obd] o show "mileage (obdOdometerMeters v) (OBD_Odometer_Miles info)"
    by simp
  from miles_of_mileage [OF gps] g show "mileage (gpsDistanceMeters v) (GPS_Distance_Miles info)"
    by simp
qed

lemma process_loop_records:
  "process_loop na_repr clock i vs df = Inr out \<Longrightarrow>
     list_all2
       (\<lambda>info v. Vehicle_Name info = get_default (v_name v) []
          \<and> mileage (obdOdometerMeters v) (OBD_Odometer_Miles info)
          \<and> mileage (gpsDistanceMeters v) (GPS_Distance_Miles info))
       out (filter (matched na_repr df) vs)"
proof (induction vs arbitrary: i out)
  case Nil
  then show ?case by simp
next
  case (Cons v vs)
  from Cons.prems obtain r rest where
    r: "process_vehicle na_repr (clock i) v df = Inr r" and
    rest: "process_loop na_repr clock (Suc i) vs df = Inr rest" and
    out: "out = (case r of None \<Rightarrow> rest | Some info \<Rightarrow> info # rest)"
    by (auto split: sum.splits)
  note ih = Cons.IH [OF rest]
  show ?case
  proof (cases r)
    case None
    with r have "\<not> matched na_repr df v" by (auto dest: process_vehicle_None)
    with ih out None show ?thesis by simp
  next
    case (Some info)
    with r have "process_vehicle na_repr (clock i) v df = Inr (Some info)" by simp
    from process_vehicle_Some [OF this] ih out Some show ?thesis by simp
  qed
qed

lemma process_combined_data_records:
  assumes "process_combined_data na_repr clock vs df = Inr out"
  shows "list_all2
       (\<lambda>info v. Vehicle_Name info = get_default (v_name v) []
          \<and> mileage (obdOdometerMeters v) (OBD_Odometer_Miles info)
          \<and> mileage (gpsDistanceMeters v) (GPS_Distance_Miles info))
       out (filter (matched na_repr df) vs)"
proof (cases "vs = [] \<or> df_empty df")
  case True
  then have "out = []" using assms by (simp add: process_combined_data_def)
  moreover have "filter (matched na_repr df) vs = []"
    using True by (auto simp: matched_def find_excel_match_empty)
  ultimately show ?thesis by simp
next
  case False
  then have "process_loop na_repr clock 0 vs df = Inr out"
    using assms by (simp add: process_combined_data_def)
  then show ?thesis by (rule process_loop_records)
qed

text \<open>
  On a sheet whose labels are the positions and vehicles whose records raise nothing of
  their own, and on empty inputs, the function returns and the output names the matched
  vehicles in input order.
\<close>

lemma match_loop_label:
  "match_loop na_repr p key df cols = Some l \<Longrightarrow> l \<in> fst ` set (rows df)"
proof (induction cols)
  case Nil
  then show ?case by simp
next
  case (Cons col cols)
  define hits where
    "hits = filter (\<lambda>(l, c). astype_str na_repr c = Some key) (getitem_col df col)"
  show ?case
  proof (cases "p (str_upper col) \<and> hits \<noteq> []")
    case True
    then obtain l' c' rest where f: "hits = (l', c') # rest"
      by (cases hits) auto
    with True Cons.prems have "l = l'" by (simp add: hits_def [symmetric])
    moreover have "(l', c') \<in> set hits"
      unfolding f by simp
    then have "(l', c') \<in> set (getitem_col df col)" by (simp add: hits_def)
    ultimately show ?thesis by (force simp: getitem_col_def)
  next
    case False
    with Cons show ?thesis by (auto simp: hits_def split: list.splits)
  qed
qed

lemma find_excel_match_label:
  "find_excel_match na_repr name vin df = Some l \<Longrightarrow> l \<in> fst ` set (rows df)"
  by (auto simp: find_excel_match_def split: option.splits if_splits dest: match_loop_label)

lemma positional_label:
  assumes "positional df" and "l \<in> fst ` set (rows df)"
  shows "l < length (rows df)"
proof -
  from assms(2) have "l \<in> set (map fst (rows df))" by simp
  with assms(1) show ?thesis by (simp add: positional_def)
qed

lemma calculate_days_remaining_Inr: "\<exists>r. calculate_days_remaining today v = Inr r"
  by (auto simp: calculate_days_remaining_def split: option.splits sum.splits)

lemma process_vehicle_positional:
  assumes "positional df" and "vehicle_ok v"
  shows "\<exists>r. process_vehicle na_repr now v df = Inr r"
proof -
  from assms(2) have nn: "externalIds v \<noteq> JsonNull" by (simp add: vehicle_ok_def)
  then obtain vin where vin: "external_id ext_vin (externalIds v) = Inr vin"
    by (cases "externalIds v") (simp_all add: external_id_def)
  from nn obtain serial where serial: "external_id ext_serial (externalIds v) = Inr serial"
    by (cases "externalIds v") (simp_all add: external_id_def)
  from assms(2) obtain obd where obd: "miles_of (obdOdometerMeters v) = Inr obd"
    using miles_of_ok by (auto simp: vehicle_ok_def)
  from assms(2) obtain gps where gps: "miles_of (gpsDistanceMeters v) = Inr gps"
    using miles_of_ok by (auto simp: vehicle_ok_def)
  show ?thesis
  proof (cases "find_excel_match na_repr (get_default (v_name v) []) vin df")
    case None
    then show ?thesis by (simp add: process_vehicle_def Let_def vin serial obd gps)
  next
    case (Some l)
    from positional_label [OF assms(1) find_excel_match_label [OF Some]]
    obtain d where d: "extract_excel_data l df = Inr d"
      by (auto simp: extract_excel_data_def iloc_row_def)
    obtain a where a: "calculate_days_remaining (now 0) (Some (annual_date d)) = Inr a"
      using calculate_days_remaining_Inr by blast
    obtain b where b: "calculate_days_remaining (now (Suc 0)) (Some (pm_date d)) = Inr b"
      using calculate_days_remaining_Inr by blast
    obtain c where c: "calculate_days_remaining (now 2) (Some (pm_insp_date d)) = Inr c"
      using calculate_days_remaining_Inr by blast
    show ?thesis by (simp add: process_vehicle_def Let_def vin serial obd gps Some d a b c)
  qed
qed

lemma process_loop_positional:
  assumes "positional df" and "list_all vehicle_ok vs"
  shows "\<exists>out. process_loop na_repr clock i vs df = Inr out"
  using assms(2)
proof (induction vs arbitrary: i)
  case Nil
  then show ?case by simp
next
  case (Cons v vs)
  then have "vehicle_ok v" "list_all vehicle_ok vs" by simp_all
  obtain r where r: "process_vehicle na_repr (clock i) v df = Inr r"
    using process_vehicle_positional [OF assms(1) \<open>vehicle_ok v\<close>] by blast
  obtain rest where "process_loop na_repr clock (Suc i) vs df = Inr rest"
    using Cons.IH [OF \<open>list_all vehicle_ok vs\<close>] by blast
  with r show ?case by simp
qed

lemma process_combined_data_positional:
  assumes "positional df" and "list_all vehicle_ok vs"
  shows "\<exists>out. process_combined_data na_repr clock vs df = Inr out
           \<and> map Vehicle_Name out
               = map (\<lambda>v. get_default (v_name v) []) (filter (matched na_repr df) vs)"
proof -
  have "\<exists>out. process_combined_data na_repr clock vs df = Inr out"
    using process_loop_positional [OF assms, of na_repr clock 0]
    by (simp add: process_combined_data_def)
  then obtain out where out: "process_combined_data na_repr clock vs df = Inr out" ..
  from process_combined_data_records [OF out]
  have "list_all2 (\<lambda>info v. Vehicle_Name info = get_default (v_name v) []) out
          (filter (matched na_repr df) vs)"
    by (rule list_all2_mono) simp
  then have "map Vehicle_Name out
      = map (\<lambda>v. get_default (v_name v) []) (filter (matched na_repr df) vs)"
    by (induction rule: list_all2_induct) simp_all
  with out show ?thesis by blast
qed

lemma process_combined_data_empty_inputs:
  "process_combined_data na_repr clock [] df = Inr []"
  "df_empty df \<Longrightarrow> process_combined_data na_repr clock vs df = Inr []"
  by (simp_all add: process_combined_data_def)

text \<open>
  A reading key that holds \<^verbatim>\<open>null\<close> makes the function raise, also for a vehicle
  that the sheet does not know.
\<close>

lemma null_reading_raises:
  "process_combined_data na_repr clock [truck_null] one_row_sheet = Inl AttributeError"
proof -
  have ne: "\<not> df_empty one_row_sheet" by (simp add: df_empty_def one_row_sheet_def)
  have "process_vehicle na_repr (clock 0) truck_null one_row_sheet = Inl AttributeError"
    by (simp add: process_vehicle_def truck_null_def external_id_def miles_of_def)
  then show ?thesis by (simp add: process_combined_data_def ne)
qed

subsection \<open>Mileage\<close>






lemma miles_of_truck_1:
  "miles_of (obdOdometerMeters truck_1) = Inr 100"
  "miles_of (gpsDistanceMeters truck_1) = Inr 2"
proof -
  have a: "float_of_int 160934 = Inr (of_int 160934)" by (rule float_of_int_exact) simp
  have b: "float_of_int 2415 = Inr (of_int 2415)" by (rule float_of_int_exact) simp
  have c: "round_half_even (100 :: rat) = 100" using round_half_even_of_int [of 100] by simp
  from a show "miles_of (obdOdometerMeters truck_1) = Inr 100"
    by (simp add: truck_1_def miles_of_def py_round0_def hundred_miles c)
  from b show "miles_of (gpsDistanceMeters truck_1) = Inr 2"
    by (simp add: truck_1_def miles_of_def py_round0_def quotient_2415)
qed






subsection \<open>A matched row read at the wrong position\<close>

text \<open>
  Claim C5 states that the output of \<^verbatim>\<open>process_combined_data\<close> is exactly the input
  vehicles that found a match, in input order, and that empty inputs give an empty
  output without an exception. The code departs from it on a cleaned sheet that has lost
  a row: \<^verbatim>\<open>find_excel_match\<close> returns the label of the matched row,
  \<^verbatim>\<open>extract_excel_data\<close> reads it as a position, and for the only row left, labelled
  1, the position is out of range, so the matched vehicle is not output and
  \<^verbatim>\<open>IndexError\<close> leaves the function, under either pandas behaviour.
\<close>

theorem matched_label_read_as_position:
  "clean_excel_data sheet_with_old_row = Inr sheet_without_old_row
   \<and> find_excel_match None ''T-1'' [] sheet_without_old_row = Some 1
   \<and> find_excel_match (Some ''nan'') ''T-1'' [] sheet_without_old_row = Some 1
   \<and> extract_excel_data 1 sheet_without_old_row = Inl IndexError
   \<and> process_combined_data None still_clock [truck_1] sheet_without_old_row = Inl IndexError
   \<and> process_combined_data (Some ''nan'') still_clock [truck_1] sheet_without_old_row
       = Inl IndexError"
proof -
  have c: "clean_excel_data sheet_with_old_row = Inr sheet_without_old_row"
    by (simp add: sheet_with_old_row_def sheet_without_old_row_def frame_eval)
  have m: "find_excel_match na_repr ''T-1'' [] sheet_without_old_row = Some 1" for na_repr
    by (simp add: sheet_without_old_row_def frame_eval)
  have e: "extract_excel_data 1 sheet_without_old_row = Inl IndexError"
    by (simp add: sheet_without_old_row_def extract_excel_data_def iloc_row_def)
  have e': "extract_excel_data (Suc 0) sheet_without_old_row = Inl IndexError"
    using e by simp
  have ne: "\<not> df_empty sheet_without_old_row"
    by (simp add: df_empty_def sheet_without_old_row_def)
  have ids: "externalIds truck_1 = KeyMissing" "v_name truck_1 = Some ''T-1''"
    by (simp_all add: truck_1_def)
  have "process_vehicle na_repr (still_clock 0) truck_1 sheet_without_old_row = Inl IndexError"
    for na_repr
    by (simp add: process_vehicle_def ids miles_of_truck_1 external_id_def get_default_def m e')
  then have p: "process_combined_data na_repr still_clock [truck_1] sheet_without_old_row
      = Inl IndexError" for na_repr
    by (simp add: process_combined_data_def ne)
  from c m e p show ?thesis by blast
qed
end
